theory Spec2Isabelle
  imports Complex_Main
begin

section \<open>Numbers of the notebook\<close>

text \<open>
  The notebook \<open>Notebooks/BlackScholesMerton.ipynb\<close> computes with Python floats and with
  numpy's \<open>float64\<close>: both are IEEE 754 binary64 numbers. An \<open>npfloat\<close> is such a number: a
  finite one \<open>Fin x\<close> (with \<open>Fin 0\<close> for \<open>+0.0\<close>), \<open>-0.0\<close>, one of the two infinities, or
  \<open>NaN\<close>.

  Every arithmetic operation returns the exact result rounded to the nearest float64,
  ties to even (\<open>round64\<close>): 53 significant bits, exponents from \<open>-1022\<close> to \<open>1023\<close>,
  subnormal numbers below, infinity from \<open>2^1024 - 2^970\<close> on. numpy does not raise on a
  division by zero, a logarithm of a non-positive number or a root of a negative one: it
  returns an infinity or \<open>NaN\<close> (with a warning) and goes on.
\<close>

datatype pyerror = ZeroDivisionError | OverflowError | TypeError | OtherError

datatype npfloat = Fin real | NegZero | PInf | NInf | NaN

fun signbit :: "npfloat \<Rightarrow> bool" where
  "signbit (Fin x) = (x < 0)"
| "signbit NegZero = True"
| "signbit PInf = False"
| "signbit NInf = True"
| "signbit NaN = False"

fun is_zero :: "npfloat \<Rightarrow> bool" where
  "is_zero (Fin x) = (x = 0)"
| "is_zero NegZero = True"
| "is_zero PInf = False"
| "is_zero NInf = False"
| "is_zero NaN = False"

fun is_inf :: "npfloat \<Rightarrow> bool" where
  "is_inf PInf = True"
| "is_inf NInf = True"
| "is_inf (Fin x) = False"
| "is_inf NegZero = False"
| "is_inf NaN = False"

fun val :: "npfloat \<Rightarrow> real" where
  "val (Fin x) = x"
| "val NegZero = 0"
| "val PInf = 0"
| "val NInf = 0"
| "val NaN = 0"

definition signed_zero :: "bool \<Rightarrow> npfloat" where
  "signed_zero negative = (if negative then NegZero else Fin 0)"

definition signed_inf :: "bool \<Rightarrow> npfloat" where
  "signed_inf negative = (if negative then NInf else PInf)"

definition round_even :: "real \<Rightarrow> int" where
  "round_even y =
     (let f = \<lfloor>y\<rfloor> in
      if y - real_of_int f < 1 / 2 then f
      else if 1 / 2 < y - real_of_int f then f + 1
      else if even f then f else f + 1)"

definition binade :: "real \<Rightarrow> int" where
  "binade a = max \<lfloor>log 2 a\<rfloor> (- 1022)"

definition pow2 :: "int \<Rightarrow> real" where
  "pow2 e = 2 powi e"

definition round_mag :: "real \<Rightarrow> real" where
  "round_mag a = real_of_int (round_even (a / pow2 (binade a - 52))) * pow2 (binade a - 52)"

definition round64 :: "real \<Rightarrow> npfloat" where
  "round64 x =
     (if x = 0 then Fin 0
      else if pow2 1024 \<le> round_mag \<bar>x\<bar> then signed_inf (x < 0)
      else if round_mag \<bar>x\<bar> = 0 then signed_zero (x < 0)
      else Fin (if x < 0 then - round_mag \<bar>x\<bar> else round_mag \<bar>x\<bar>))"

definition np_neg :: "npfloat \<Rightarrow> npfloat" where
  "np_neg a =
     (case a of
        Fin x \<Rightarrow> if x = 0 then NegZero else Fin (- x)
      | NegZero \<Rightarrow> Fin 0
      | PInf \<Rightarrow> NInf
      | NInf \<Rightarrow> PInf
      | NaN \<Rightarrow> NaN)"

definition np_add :: "npfloat \<Rightarrow> npfloat \<Rightarrow> npfloat" where
  "np_add a b =
     (if a = NaN \<or> b = NaN then NaN
      else if is_inf a \<and> is_inf b then (if a = b then a else NaN)
      else if is_inf a then a
      else if is_inf b then b
      else if is_zero a \<and> is_zero b then signed_zero (signbit a \<and> signbit b)
      else round64 (val a + val b))"

definition np_sub :: "npfloat \<Rightarrow> npfloat \<Rightarrow> npfloat" where
  "np_sub a b = np_add a (np_neg b)"

definition np_mul :: "npfloat \<Rightarrow> npfloat \<Rightarrow> npfloat" where
  "np_mul a b =
     (if a = NaN \<or> b = NaN then NaN
      else if (is_inf a \<and> is_zero b) \<or> (is_zero a \<and> is_inf b) then NaN
      else if is_inf a \<or> is_inf b then signed_inf (signbit a \<noteq> signbit b)
      else if is_zero a \<or> is_zero b then signed_zero (signbit a \<noteq> signbit b)
      else round64 (val a * val b))"

definition np_div :: "npfloat \<Rightarrow> npfloat \<Rightarrow> npfloat" where
  "np_div a b =
     (if a = NaN \<or> b = NaN then NaN
      else if (is_inf a \<and> is_inf b) \<or> (is_zero a \<and> is_zero b) then NaN
      else if is_inf a \<or> is_zero b then signed_inf (signbit a \<noteq> signbit b)
      else if is_inf b \<or> is_zero a then signed_zero (signbit a \<noteq> signbit b)
      else round64 (val a / val b))"

definition np_sqrt :: "npfloat \<Rightarrow> npfloat" where
  "np_sqrt a =
     (case a of
        Fin x \<Rightarrow> if x < 0 then NaN else round64 (sqrt x)
      | NegZero \<Rightarrow> NegZero
      | PInf \<Rightarrow> PInf
      | NInf \<Rightarrow> NaN
      | NaN \<Rightarrow> NaN)"

definition fl_le :: "npfloat \<Rightarrow> npfloat \<Rightarrow> bool" where
  "fl_le a b \<longleftrightarrow>
     a \<noteq> NaN \<and> b \<noteq> NaN \<and>
     (a = NInf \<or> b = PInf \<or> (\<not> is_inf a \<and> \<not> is_inf b \<and> val a \<le> val b))"

section \<open>The libraries\<close>

text \<open>
  IEEE 754 fixes the results of \<open>+\<close>, \<open>-\<close>, \<open>*\<close>, \<open>/\<close> and \<open>sqrt\<close>. It does not fix those of
  \<open>np.exp\<close>, \<open>np.log\<close>, \<open>norm.cdf\<close>, \<open>binom.pmf\<close> and \<open>**\<close>: they are what the installed numpy,
  scipy and C library compute. The model takes them from a \<open>library\<close>: for each function
  its values at the finite arguments, and for the two that receive a Python integer,
  whether the call returns at all. \<open>lib_max_zero\<close> is the sign of the zero that
  \<open>np.maximum\<close> returns for two zeros.
\<close>

record library =
  lib_exp :: "real \<Rightarrow> npfloat"
  lib_log :: "real \<Rightarrow> npfloat"
  lib_cdf :: "real \<Rightarrow> npfloat"
  lib_pmf :: "int \<Rightarrow> int \<Rightarrow> npfloat \<Rightarrow> pyerror + npfloat"
  lib_pow :: "npfloat \<Rightarrow> int \<Rightarrow> pyerror + npfloat"
  lib_max_zero :: "bool \<Rightarrow> bool \<Rightarrow> bool"

text \<open>
  What the model knows of the libraries, and nothing more:
  \<^item> \<open>np.exp\<close> of a finite number is \<open>inf\<close> or a finite number \<open>\<ge> 0\<close>; it is \<open>1.0\<close> at zero,
    at least \<open>1\<close> at an argument \<open>\<ge> 0\<close>, at most \<open>1\<close> at an argument \<open>\<le> 0\<close>, \<open>inf\<close> from
    \<open>1024\<close> on and \<open>0.0\<close> up to \<open>-1100\<close>;
  \<^item> \<open>np.log\<close> of a finite positive number is finite;
  \<^item> \<open>binom.pmf(k, n, p)\<close> returns for \<open>0 \<le> k \<le> n < 2^63\<close>; what it returns is never
    negative (it is \<open>NaN\<close> or \<open>\<ge> 0\<close>), and is \<open>NaN\<close> unless \<open>0 \<le> p \<le> 1\<close>;
  \<^item> \<open>x ** k\<close> returns for \<open>0 \<le> k < 2^63\<close>;
  \<^item> \<open>np.maximum\<close> of two zeros of the same sign is that zero.
\<close>

definition numpy_like :: "library \<Rightarrow> bool" where
  "numpy_like l \<longleftrightarrow>
     (\<forall>x. lib_exp l x = PInf \<or> (\<exists>y. lib_exp l x = Fin y \<and> 0 \<le> y))
   \<and> lib_exp l 0 = Fin 1
   \<and> (\<forall>x. 0 \<le> x \<longrightarrow> fl_le (Fin 1) (lib_exp l x))
   \<and> (\<forall>x. x \<le> 0 \<longrightarrow> fl_le (lib_exp l x) (Fin 1))
   \<and> (\<forall>x. 1024 \<le> x \<longrightarrow> lib_exp l x = PInf)
   \<and> (\<forall>x. x \<le> - 1100 \<longrightarrow> lib_exp l x = Fin 0)
   \<and> (\<forall>x. 0 < x \<longrightarrow> (\<exists>y. lib_log l x = Fin y))
   \<and> (\<forall>k n p. 0 \<le> k \<and> k \<le> n \<and> n < 2 ^ 63 \<longrightarrow> (\<exists>v. lib_pmf l k n p = Inr v))
   \<and> (\<forall>k n p v. lib_pmf l k n p = Inr v \<longrightarrow> v = NaN \<or> fl_le (Fin 0) v)
   \<and> (\<forall>k n p v. lib_pmf l k n p = Inr v \<and> \<not> (fl_le (Fin 0) p \<and> fl_le p (Fin 1)) \<longrightarrow> v = NaN)
   \<and> (\<forall>x k. 0 \<le> k \<and> k < 2 ^ 63 \<longrightarrow> (\<exists>v. lib_pow l x k = Inr v))
   \<and> \<not> lib_max_zero l False False
   \<and> lib_max_zero l True True"

text \<open>
  One library with these properties, to show that there is one: the exact functions,
  with the overflow and underflow of \<open>exp\<close>.
\<close>

definition binomial_mass :: "nat \<Rightarrow> real \<Rightarrow> nat \<Rightarrow> real" where
  "binomial_mass n p i = real (n choose i) * p ^ i * (1 - p) ^ (n - i)"

definition exact_library :: library where
  "exact_library =
     \<lparr>lib_exp = (\<lambda>x. if 1024 \<le> x then PInf else if x \<le> - 1100 then Fin 0 else Fin (exp x)),
      lib_log = (\<lambda>x. Fin (ln x)),
      lib_cdf = (\<lambda>x. Fin (1 / (1 + exp (- x)))),
      lib_pmf = (\<lambda>k n p. Inr (case p of
                   Fin x \<Rightarrow> if n < 0 \<or> x < 0 \<or> 1 < x then NaN
                            else if k < 0 \<or> n < k then Fin 0
                            else Fin (binomial_mass (nat n) x (nat k))
                 | NegZero \<Rightarrow> if n < 0 then NaN else if k = 0 then Fin 1 else Fin 0
                 | PInf \<Rightarrow> NaN | NInf \<Rightarrow> NaN | NaN \<Rightarrow> NaN)),
      lib_pow = (\<lambda>x k. Inr (if k = 0 then Fin 1 else case x of
                   Fin y \<Rightarrow> round64 (y powi k)
                 | NegZero \<Rightarrow> if k < 0 then signed_inf (odd k) else signed_zero (odd k)
                 | PInf \<Rightarrow> if k < 0 then Fin 0 else PInf
                 | NInf \<Rightarrow> if k < 0 then signed_zero (odd k) else signed_inf (odd k)
                 | NaN \<Rightarrow> NaN)),
      lib_max_zero = (\<lambda>a b. a)\<rparr>"

text \<open>
  \<open>numpy\<close> stands for the libraries that are installed: a library of which the model
  knows \<open>numpy_like\<close> and nothing else. Every property proved below therefore holds
  whatever the installed functions return within \<open>numpy_like\<close>.
\<close>

definition numpy :: library where
  "numpy = (SOME l. numpy_like l)"

definition np_exp :: "npfloat \<Rightarrow> npfloat" where
  "np_exp a =
     (case a of
        Fin x \<Rightarrow> lib_exp numpy x
      | NegZero \<Rightarrow> lib_exp numpy 0
      | PInf \<Rightarrow> PInf
      | NInf \<Rightarrow> Fin 0
      | NaN \<Rightarrow> NaN)"

definition np_log :: "npfloat \<Rightarrow> npfloat" where
  "np_log a =
     (case a of
        Fin x \<Rightarrow> if x < 0 then NaN else if x = 0 then NInf else lib_log numpy x
      | NegZero \<Rightarrow> NInf
      | PInf \<Rightarrow> PInf
      | NInf \<Rightarrow> NaN
      | NaN \<Rightarrow> NaN)"

definition norm_cdf :: "npfloat \<Rightarrow> npfloat" where
  "norm_cdf a =
     (case a of
        Fin x \<Rightarrow> lib_cdf numpy x
      | NegZero \<Rightarrow> lib_cdf numpy 0
      | PInf \<Rightarrow> Fin 1
      | NInf \<Rightarrow> Fin 0
      | NaN \<Rightarrow> NaN)"

definition binom_pmf :: "int \<Rightarrow> int \<Rightarrow> npfloat \<Rightarrow> pyerror + npfloat" where
  "binom_pmf k n p = lib_pmf numpy k n p"

definition np_power :: "npfloat \<Rightarrow> int \<Rightarrow> pyerror + npfloat" where
  "np_power x k = lib_pow numpy x k"

text \<open>
  \<open>np.maximum\<close> propagates \<open>NaN\<close> and otherwise returns the larger argument; the two zeros
  compare equal.
\<close>

definition np_maximum :: "npfloat \<Rightarrow> npfloat \<Rightarrow> npfloat" where
  "np_maximum a b =
     (if a = NaN \<or> b = NaN then NaN
      else if is_zero a \<and> is_zero b then signed_zero (lib_max_zero numpy (signbit a) (signbit b))
      else if fl_le b a then a else b)"

section \<open>Python's numbers\<close>

text \<open>
  The arguments of the two pricers are Python floats, that is, float64 values, except
  the number of steps \<open>n\<close>, which is a Python integer (unbounded) or a float. A literal
  such as \<open>0.08\<close> is the float64 nearest to it. Python's \<open>+\<close>, \<open>-\<close> and \<open>*\<close> on floats are
  the IEEE operations; its \<open>/\<close> raises \<open>ZeroDivisionError\<close> for a zero divisor, and an
  integer operand is converted first, which raises \<open>OverflowError\<close> when it rounds to
  infinity.
\<close>

datatype pynum = PyInt int | PyFloat npfloat

definition py_float :: "real \<Rightarrow> npfloat" where
  "py_float x = round64 x"

definition py_float_of_int :: "int \<Rightarrow> pyerror + npfloat" where
  "py_float_of_int k =
     (if is_inf (round64 (real_of_int k)) then Inl OverflowError
      else Inr (round64 (real_of_int k)))"

definition py_truediv :: "npfloat \<Rightarrow> npfloat \<Rightarrow> pyerror + npfloat" where
  "py_truediv a b = (if is_zero b then Inl ZeroDivisionError else Inr (np_div a b))"

definition py_truediv_num :: "npfloat \<Rightarrow> pynum \<Rightarrow> pyerror + npfloat" where
  "py_truediv_num a n =
     (case n of
        PyFloat b \<Rightarrow> py_truediv a b
      | PyInt k \<Rightarrow> (case py_float_of_int k of Inl e \<Rightarrow> Inl e | Inr b \<Rightarrow> py_truediv a b))"

definition py_add_one :: "pynum \<Rightarrow> pynum" where
  "py_add_one n = (case n of PyInt k \<Rightarrow> PyInt (k + 1) | PyFloat x \<Rightarrow> PyFloat (np_add x (Fin 1)))"

definition py_range :: "pynum \<Rightarrow> pyerror + nat list" where
  "py_range m = (case m of PyInt k \<Rightarrow> Inr [0..<nat k] | PyFloat x \<Rightarrow> Inl TypeError)"

fun py_int :: "pynum \<Rightarrow> int" where
  "py_int (PyInt k) = k"
| "py_int (PyFloat x) = 0"

section \<open>The closed-form pricer\<close>

text \<open>
  \<^verbatim>\<open>
  def blackScholesCall(spot, strike, vol, rate, expiry, div):
      d1 = (np.log(spot / strike) + (rate - div + 0.5 * vol * vol) * expiry) / (vol * np.sqrt(expiry))
      d2 = d1 - (vol * np.sqrt(expiry))
      callPrc = (spot * np.exp(-div * expiry) * norm.cdf(d1)) - (strike * np.exp(-rate * expiry) * norm.cdf(d2))
      return callPrc
  \<close>
  \<open>spot / strike\<close> is a division of Python floats, the one place where the function can
  raise. The function checks none of its arguments.
\<close>

definition bs_d1 :: "npfloat \<Rightarrow> npfloat \<Rightarrow> npfloat \<Rightarrow> npfloat \<Rightarrow> npfloat \<Rightarrow> npfloat \<Rightarrow> pyerror + npfloat" where
  "bs_d1 spot strike vol rate expiry div' =
     (case py_truediv spot strike of
        Inl e \<Rightarrow> Inl e
      | Inr m \<Rightarrow>
          Inr (np_div (np_add (np_log m)
                         (np_mul (np_add (np_sub rate div') (np_mul (np_mul (Fin (1 / 2)) vol) vol)) expiry))
                      (np_mul vol (np_sqrt expiry))))"

definition bs_d2 :: "npfloat \<Rightarrow> npfloat \<Rightarrow> npfloat \<Rightarrow> npfloat" where
  "bs_d2 d1 vol expiry = np_sub d1 (np_mul vol (np_sqrt expiry))"

definition bs_price :: "npfloat \<Rightarrow> npfloat \<Rightarrow> npfloat \<Rightarrow> npfloat \<Rightarrow> npfloat \<Rightarrow> npfloat \<Rightarrow> npfloat \<Rightarrow> npfloat" where
  "bs_price spot strike rate expiry div' d1 d2 =
     np_sub (np_mul (np_mul spot (np_exp (np_mul (np_neg div') expiry))) (norm_cdf d1))
            (np_mul (np_mul strike (np_exp (np_mul (np_neg rate) expiry))) (norm_cdf d2))"

definition blackScholesCall ::
  "npfloat \<Rightarrow> npfloat \<Rightarrow> npfloat \<Rightarrow> npfloat \<Rightarrow> npfloat \<Rightarrow> npfloat \<Rightarrow> pyerror + npfloat" where
  "blackScholesCall spot strike vol rate expiry div' =
     (case bs_d1 spot strike vol rate expiry div' of
        Inl e \<Rightarrow> Inl e
      | Inr d1 \<Rightarrow>
          (let d2 = bs_d2 d1 vol expiry;
               callPrc = bs_price spot strike rate expiry div' d1 d2
           in Inr callPrc))"

section \<open>The payoff functions\<close>

text \<open>
  \<^verbatim>\<open>
  def callPayoff(spot, strike):
      return np.maximum(spot - strike, 0.0)

  def putPayoff(spot, strike):
      return np.maximum(strike - spot, 0.0)
  \<close>
\<close>

definition callPayoff :: "npfloat \<Rightarrow> npfloat \<Rightarrow> npfloat" where
  "callPayoff spot strike = np_maximum (np_sub spot strike) (Fin 0)"

definition putPayoff :: "npfloat \<Rightarrow> npfloat \<Rightarrow> npfloat" where
  "putPayoff spot strike = np_maximum (np_sub strike spot) (Fin 0)"

section \<open>The binomial lattice pricer\<close>

text \<open>
  \<^verbatim>\<open>
  def binomialPricer(S, K, r, v, q, T, n, payoff, verbose = True):
      nodes = n  + 1
      h = T / n
      u = np.exp((r - q) * h + v * np.sqrt(h))
      d = np.exp((r - q) * h - v * np.sqrt(h))
      pstar = (np.exp((r - q) * h) - d) / (u - d)
      price = 0.0
      for i in range(nodes):
          prob = binom.pmf(i, n, pstar)
          spotT = S * (u ** i) * (d ** (n - i))
          po = payoff(spotT, K)
          price += po * prob
          if verbose:
              print(f"({spotT:0.4f}, {po:0.4f}, {prob:0.4f})")
      price *= np.exp(-r * T)
      return price
  \<close>
  \<open>T / n\<close> raises for \<open>n = 0\<close> and for an integer too large for a float;
  \<open>range(nodes)\<close> raises \<open>TypeError\<close> when \<open>n\<close> is a float, and is empty for an integer
  \<open>n < 0\<close>. A library call inside the loop that raises ends the function with that
  error. What the function prints is a list of lines, one triple of numbers each (their
  formatting to four decimals is left out); the function returns the lines with the
  price.
\<close>

definition lattice_u :: "npfloat \<Rightarrow> npfloat \<Rightarrow> npfloat \<Rightarrow> npfloat \<Rightarrow> npfloat" where
  "lattice_u r q v h = np_exp (np_add (np_mul (np_sub r q) h) (np_mul v (np_sqrt h)))"

definition lattice_d :: "npfloat \<Rightarrow> npfloat \<Rightarrow> npfloat \<Rightarrow> npfloat \<Rightarrow> npfloat" where
  "lattice_d r q v h = np_exp (np_sub (np_mul (np_sub r q) h) (np_mul v (np_sqrt h)))"

definition lattice_pstar :: "npfloat \<Rightarrow> npfloat \<Rightarrow> npfloat \<Rightarrow> npfloat \<Rightarrow> npfloat" where
  "lattice_pstar r q v h =
     np_div (np_sub (np_exp (np_mul (np_sub r q) h)) (lattice_d r q v h))
            (np_sub (lattice_u r q v h) (lattice_d r q v h))"

type_synonym line = "npfloat \<times> npfloat \<times> npfloat"

definition terminal_price :: "npfloat \<Rightarrow> npfloat \<Rightarrow> npfloat \<Rightarrow> int \<Rightarrow> nat \<Rightarrow> pyerror + npfloat" where
  "terminal_price S u d n i =
     (case np_power u (int i) of
        Inl e \<Rightarrow> Inl e
      | Inr ui \<Rightarrow>
          (case np_power d (n - int i) of
             Inl e \<Rightarrow> Inl e
           | Inr dni \<Rightarrow> Inr (np_mul (np_mul S ui) dni)))"

text \<open>
  One pass of the loop body computes \<open>prob\<close>, \<open>spotT\<close> and \<open>po\<close> (\<open>node_values\<close>: the three
  numbers of the line it prints), adds \<open>po * prob\<close> to the price, and prints the line
  when \<open>verbose\<close> is set.
\<close>

definition node_values ::
  "npfloat \<Rightarrow> npfloat \<Rightarrow> int \<Rightarrow> npfloat \<Rightarrow> npfloat \<Rightarrow> npfloat \<Rightarrow> (npfloat \<Rightarrow> npfloat \<Rightarrow> npfloat)
     \<Rightarrow> nat \<Rightarrow> pyerror + line" where
  "node_values S K n u d pstar payoff i =
     (case binom_pmf (int i) n pstar of
        Inl e \<Rightarrow> Inl e
      | Inr prob \<Rightarrow>
          (case terminal_price S u d n i of
             Inl e \<Rightarrow> Inl e
           | Inr spotT \<Rightarrow> Inr (spotT, payoff spotT K, prob)))"

definition node_step ::
  "npfloat \<Rightarrow> npfloat \<Rightarrow> int \<Rightarrow> npfloat \<Rightarrow> npfloat \<Rightarrow> npfloat \<Rightarrow> (npfloat \<Rightarrow> npfloat \<Rightarrow> npfloat) \<Rightarrow> bool
     \<Rightarrow> npfloat \<times> line list \<Rightarrow> nat \<Rightarrow> pyerror + npfloat \<times> line list" where
  "node_step S K n u d pstar payoff verbose st i =
     (case node_values S K n u d pstar payoff i of
        Inl e \<Rightarrow> Inl e
      | Inr (spotT, po, prob) \<Rightarrow>
          Inr (np_add (fst st) (np_mul po prob),
               if verbose then snd st @ [(spotT, po, prob)] else snd st))"

fun for_loop :: "('s \<Rightarrow> nat \<Rightarrow> pyerror + 's) \<Rightarrow> nat list \<Rightarrow> 's \<Rightarrow> pyerror + 's" where
  "for_loop body [] st = Inr st"
| "for_loop body (i # rest) st =
     (case body st i of Inl e \<Rightarrow> Inl e | Inr st' \<Rightarrow> for_loop body rest st')"

definition binomialPricer ::
  "npfloat \<Rightarrow> npfloat \<Rightarrow> npfloat \<Rightarrow> npfloat \<Rightarrow> npfloat \<Rightarrow> npfloat \<Rightarrow> pynum
     \<Rightarrow> (npfloat \<Rightarrow> npfloat \<Rightarrow> npfloat) \<Rightarrow> bool \<Rightarrow> pyerror + (line list \<times> npfloat)" where
  "binomialPricer S K r v q T n payoff verbose =
     (let nodes = py_add_one n in
      case py_truediv_num T n of
        Inl e \<Rightarrow> Inl e
      | Inr h \<Rightarrow>
          (let u = lattice_u r q v h;
               d = lattice_d r q v h;
               pstar = lattice_pstar r q v h
           in case py_range nodes of
                Inl e \<Rightarrow> Inl e
              | Inr indices \<Rightarrow>
                  (case for_loop (node_step S K (py_int n) u d pstar payoff verbose) indices (Fin 0, []) of
                     Inl e \<Rightarrow> Inl e
                   | Inr st \<Rightarrow> Inr (snd st, np_mul (fst st) (np_exp (np_mul (np_neg r) T))))))"

section \<open>Notions of the statements\<close>

text \<open>
  The lines of the nodes of a list of indices, when every one of them is computed without
  an error, and otherwise the first error; and the sum that the loop accumulates over
  lines, in their order, every product and every addition rounded.
\<close>

fun collect_lines :: "(nat \<Rightarrow> pyerror + line) \<Rightarrow> nat list \<Rightarrow> pyerror + line list" where
  "collect_lines f [] = Inr []"
| "collect_lines f (i # rest) =
     (case f i of
        Inl e \<Rightarrow> Inl e
      | Inr x \<Rightarrow> (case collect_lines f rest of Inl e \<Rightarrow> Inl e | Inr xs \<Rightarrow> Inr (x # xs)))"

definition accumulate :: "npfloat \<Rightarrow> line list \<Rightarrow> npfloat" where
  "accumulate price lines = foldl (\<lambda>acc (spotT, po, prob). np_add acc (np_mul po prob)) price lines"

text \<open>
  A float64 that is a number, not an infinity and not \<open>NaN\<close>; one that is \<open>\<ge> 0\<close> (\<open>-0.0\<close>
  and \<open>inf\<close> included); one that is not \<open>< 0\<close> (it is \<open>\<ge> 0\<close> or \<open>NaN\<close>); and a real number that
  is a float64.
\<close>

definition is_finite :: "npfloat \<Rightarrow> bool" where
  "is_finite a \<longleftrightarrow> a \<noteq> NaN \<and> \<not> is_inf a"

definition fl_nonneg :: "npfloat \<Rightarrow> bool" where
  "fl_nonneg a \<longleftrightarrow> fl_le (Fin 0) a"

definition not_negative :: "npfloat \<Rightarrow> bool" where
  "not_negative a \<longleftrightarrow> a = NaN \<or> fl_le (Fin 0) a"

definition representable :: "real \<Rightarrow> bool" where
  "representable x \<longleftrightarrow> round64 x = Fin x"

section \<open>Properties of the model\<close>

subsection \<open>Rounding\<close>

lemma pow2_pos [simp]: "0 < pow2 e"
  by (simp add: pow2_def)

lemma pow2_nonneg [simp]: "0 \<le> pow2 e"
  by (simp add: pow2_def)

lemma pow2_neq_0 [simp]: "pow2 e \<noteq> 0"
  by (simp add: pow2_def)

lemma pow2_not_le_0 [simp]: "\<not> pow2 e \<le> 0"
  using pow2_pos [of e] by linarith

lemma abs_pow2 [simp]: "\<bar>pow2 e\<bar> = pow2 e"
  by simp

lemma pow2_add: "pow2 (a + b) = pow2 a * pow2 b"
  by (simp add: pow2_def power_int_add)

lemma pow2_powr: "pow2 e = 2 powr real_of_int e"
  by (simp add: pow2_def powr_real_of_int')

lemma pow2_less_iff [simp]: "pow2 a < pow2 b \<longleftrightarrow> a < b"
  by (simp add: pow2_powr)

lemma pow2_le_iff [simp]: "pow2 a \<le> pow2 b \<longleftrightarrow> a \<le> b"
  by (simp add: pow2_powr)

lemma pow2_nat: "0 \<le> e \<Longrightarrow> pow2 e = real_of_int (2 ^ nat e)"
  by (simp add: pow2_def power_int_def)

lemma round_even_of_int [simp]: "round_even (real_of_int k) = k"
  by (simp add: round_even_def)

lemma round_even_nonneg: "0 \<le> y \<Longrightarrow> 0 \<le> round_even y"
  by (auto simp add: round_even_def Let_def)

lemma round_even_lower: "real_of_int k \<le> y \<Longrightarrow> k \<le> round_even y"
proof -
  assume "real_of_int k \<le> y"
  then have "k \<le> \<lfloor>y\<rfloor>"
    by (simp only: le_floor_iff)
  then show ?thesis
    by (auto simp add: round_even_def Let_def)
qed

lemma binade_normal:
  assumes "pow2 e \<le> a" and "a < pow2 (e + 1)" and "- 1022 \<le> e"
  shows "binade a = e"
proof -
  have a: "0 < a"
    using assms(1) pow2_pos [of e] by linarith
  have "2 powr real_of_int e \<le> a" and "a < 2 powr (real_of_int e + 1)"
    using assms(1,2) by (simp_all add: pow2_powr)
  then have "\<lfloor>log 2 a\<rfloor> = e"
    using a by (simp add: floor_log_eq_powr_iff)
  then show ?thesis
    using assms(3) by (simp add: binade_def)
qed

lemma floor_log2_bounds:
  assumes "0 < a"
  shows "pow2 \<lfloor>log 2 a\<rfloor> \<le> a" and "a < pow2 (\<lfloor>log 2 a\<rfloor> + 1)"
  using assms floor_log_eq_powr_iff [of a 2 "\<lfloor>log 2 a\<rfloor>"] by (simp_all add: pow2_powr)

lemma round_mag_nonneg: "0 \<le> a \<Longrightarrow> 0 \<le> round_mag a"
  by (simp add: round_mag_def round_even_nonneg)

lemma round_mag_exact:
  assumes a: "0 < a" and rep: "a = real_of_int m * pow2 k" and m: "m < 2 ^ 53" and k: "- 1074 \<le> k"
  shows "round_mag a = a"
proof -
  define e where "e = binade a"
  have "real_of_int m < real_of_int (2 ^ 53)"
    using m by (simp only: of_int_less_iff)
  also have "real_of_int (2 ^ 53) = pow2 53"
    by (simp add: pow2_nat)
  finally have "real_of_int m * pow2 k < pow2 53 * pow2 k"
    by (intro mult_strict_right_mono) simp_all
  then have "a < pow2 (k + 53)"
    by (simp add: rep pow2_add mult.commute)
  moreover have "pow2 \<lfloor>log 2 a\<rfloor> \<le> a"
    using a by (rule floor_log2_bounds)
  ultimately have "pow2 \<lfloor>log 2 a\<rfloor> < pow2 (k + 53)"
    by linarith
  then have "\<lfloor>log 2 a\<rfloor> < k + 53"
    by simp
  then have e: "e - 52 \<le> k"
    using k by (simp add: e_def binade_def)
  define j where "j = m * 2 ^ nat (k - (e - 52))"
  have "pow2 k = pow2 ((k - (e - 52)) + (e - 52))"
    by simp
  also have "\<dots> = pow2 (k - (e - 52)) * pow2 (e - 52)"
    by (rule pow2_add)
  also have "pow2 (k - (e - 52)) = real_of_int (2 ^ nat (k - (e - 52)))"
    using e by (intro pow2_nat) simp
  finally have rep': "a = real_of_int j * pow2 (e - 52)"
    by (simp add: rep j_def)
  then have "a / pow2 (e - 52) = real_of_int j"
    by simp
  then have "round_mag a = real_of_int j * pow2 (e - 52)"
    by (simp only: round_mag_def e_def [symmetric] round_even_of_int)
  then show ?thesis
    using rep' by simp
qed

lemma round64_mag:
  assumes "x \<noteq> 0" and "round_mag \<bar>x\<bar> = y" and "0 < y" and "y < pow2 1024"
  shows "round64 x = Fin (if x < 0 then - y else y)"
proof -
  have "round64 x =
     (if x = 0 then Fin 0
      else if pow2 1024 \<le> y then signed_inf (x < 0)
      else if y = 0 then signed_zero (x < 0)
      else Fin (if x < 0 then - y else y))"
    unfolding round64_def assms(2) ..
  then show ?thesis
    using assms(1,3,4) by simp
qed

lemma round_even_small:
  assumes "0 \<le> z" and "z < 1 / 2"
  shows "round_even z = 0"
proof -
  have "\<lfloor>z\<rfloor> = 0"
    using assms by (simp add: floor_eq_iff)
  then show ?thesis
    using assms(2) by (simp add: round_even_def)
qed

lemma round64_exact:
  assumes rep: "x = real_of_int m * pow2 k" and m: "\<bar>m\<bar> < 2 ^ 53" and k: "- 1074 \<le> k"
    and bound: "\<bar>x\<bar> < pow2 1024"
  shows "round64 x = Fin x"
proof (cases "x = 0")
  case True
  then show ?thesis
    by (simp add: round64_def)
next
  case False
  have "\<bar>x\<bar> = real_of_int \<bar>m\<bar> * pow2 k"
    by (simp add: rep abs_mult)
  then have mag: "round_mag \<bar>x\<bar> = \<bar>x\<bar>"
    using False m k by (intro round_mag_exact [of _ "\<bar>m\<bar>" k]) simp_all
  have "round64 x = Fin (if x < 0 then - \<bar>x\<bar> else \<bar>x\<bar>)"
    using False mag _ bound by (rule round64_mag) (use False in simp)
  then show ?thesis
    by simp
qed

lemma round64_int:
  assumes "\<bar>m\<bar> < 2 ^ 53"
  shows "round64 (real_of_int m) = Fin (real_of_int m)"
proof (rule round64_exact [of _ m 0])
  have "real_of_int \<bar>m\<bar> < real_of_int (2 ^ 53)"
    using assms by (simp only: of_int_less_iff)
  also have "real_of_int (2 ^ 53) = pow2 53"
    by (simp add: pow2_nat)
  also have "pow2 53 < pow2 1024"
    by simp
  finally show "\<bar>real_of_int m\<bar> < pow2 1024"
    by simp
qed (use assms in \<open>simp_all add: pow2_def\<close>)

lemma round64_normal:
  assumes "pow2 e \<le> \<bar>x\<bar>" and "\<bar>x\<bar> < pow2 (e + 1)" and "- 1022 \<le> e"
    and "round_even (\<bar>x\<bar> / pow2 (e - 52)) = m"
    and "real_of_int m * pow2 (e - 52) < pow2 1024"
  shows "round64 x = Fin ((if x < 0 then - 1 else 1) * (real_of_int m * pow2 (e - 52)))"
proof -
  have e: "binade \<bar>x\<bar> = e"
    using assms(1-3) by (rule binade_normal)
  have x: "x \<noteq> 0"
    using assms(1) pow2_pos [of e] by auto
  have "pow2 e = pow2 (52 + (e - 52))"
    by simp
  also have "\<dots> = real_of_int (2 ^ 52) * pow2 (e - 52)"
    unfolding pow2_add by (simp add: pow2_nat)
  finally have "real_of_int (2 ^ 52) \<le> \<bar>x\<bar> / pow2 (e - 52)"
    using assms(1) by (simp add: pos_le_divide_eq)
  then have "2 ^ 52 \<le> m"
    unfolding assms(4) [symmetric] by (rule round_even_lower)
  then have "0 < m"
    by (smt (verit) zero_less_power)
  then have "0 < real_of_int m * pow2 (e - 52)"
    by simp
  moreover have "round_mag \<bar>x\<bar> = real_of_int m * pow2 (e - 52)"
    by (simp only: round_mag_def e assms(4))
  ultimately have "round64 x = Fin (if x < 0 then - (real_of_int m * pow2 (e - 52))
                                      else real_of_int m * pow2 (e - 52))"
    using x assms(5) by (intro round64_mag) simp_all
  then show ?thesis
    by simp
qed

lemma round64_underflow:
  assumes "x \<noteq> 0" and "\<bar>x\<bar> < pow2 (- 1075)"
  shows "round64 x = signed_zero (x < 0)"
proof -
  have a: "0 < \<bar>x\<bar>"
    using assms(1) by simp
  have "pow2 \<lfloor>log 2 \<bar>x\<bar>\<rfloor> \<le> \<bar>x\<bar>"
    using a by (rule floor_log2_bounds)
  then have "pow2 \<lfloor>log 2 \<bar>x\<bar>\<rfloor> < pow2 (- 1075)"
    using assms(2) by linarith
  then have e: "binade \<bar>x\<bar> = - 1022"
    by (simp add: binade_def)
  have "pow2 (- 1075) * 2 = pow2 (- 1075 + 1)"
    unfolding pow2_add by (simp add: pow2_def)
  then have half: "pow2 (- 1075) = pow2 (- 1074) / 2"
    by simp
  have "\<bar>x\<bar> / pow2 (- 1074) < 1 / 2"
    using assms(2) unfolding half by (simp add: pos_divide_less_eq)
  moreover have "0 \<le> \<bar>x\<bar> / pow2 (- 1074)"
    by simp
  ultimately have "round_even (\<bar>x\<bar> / pow2 (- 1074)) = 0"
    by (intro round_even_small)
  then have "round_mag \<bar>x\<bar> = 0"
    by (simp add: round_mag_def e)
  then show ?thesis
    unfolding round64_def using assms(1) by simp
qed

lemma round64_overflow:
  assumes "pow2 1024 \<le> \<bar>x\<bar>"
  shows "round64 x = signed_inf (x < 0)"
proof -
  have a: "0 < \<bar>x\<bar>"
    using assms pow2_pos [of 1024] by linarith
  define e where "e = \<lfloor>log 2 \<bar>x\<bar>\<rfloor>"
  have "\<bar>x\<bar> < pow2 (e + 1)"
    unfolding e_def using a by (rule floor_log2_bounds)
  then have "pow2 1024 < pow2 (e + 1)"
    using assms by linarith
  then have e: "1024 \<le> e"
    by simp
  then have b: "binade \<bar>x\<bar> = e"
    by (simp add: binade_def e_def)
  have low: "pow2 e \<le> \<bar>x\<bar>"
    unfolding e_def using a by (rule floor_log2_bounds)
  have "pow2 e = pow2 (52 + (e - 52))"
    by simp
  also have "\<dots> = real_of_int (2 ^ 52) * pow2 (e - 52)"
    unfolding pow2_add by (simp add: pow2_nat)
  finally have split: "pow2 e = real_of_int (2 ^ 52) * pow2 (e - 52)" .
  then have "real_of_int (2 ^ 52) \<le> \<bar>x\<bar> / pow2 (e - 52)"
    using low by (simp add: pos_le_divide_eq)
  then have "2 ^ 52 \<le> round_even (\<bar>x\<bar> / pow2 (e - 52))"
    by (rule round_even_lower)
  then have "real_of_int (2 ^ 52) \<le> real_of_int (round_even (\<bar>x\<bar> / pow2 (e - 52)))"
    by (simp only: of_int_le_iff)
  then have "pow2 e \<le> round_mag \<bar>x\<bar>"
    unfolding split round_mag_def b by (intro mult_right_mono) simp_all
  moreover have "pow2 1024 \<le> pow2 e"
    using e by simp
  ultimately have "pow2 1024 \<le> round_mag \<bar>x\<bar>"
    by linarith
  then show ?thesis
    unfolding round64_def using a by auto
qed

lemma round64_cases:
  "round64 x = signed_inf (x < 0) \<or> round64 x = signed_zero (x < 0)
     \<or> (\<exists>y. round64 x = Fin y \<and> y \<noteq> 0 \<and> (y < 0 \<longleftrightarrow> x < 0))"
proof (cases "x = 0")
  case True
  then show ?thesis
    by (simp add: round64_def signed_zero_def)
next
  case False
  then have "0 \<le> round_mag \<bar>x\<bar>"
    by (intro round_mag_nonneg) simp
  then show ?thesis
    unfolding round64_def using False by auto
qed

lemma round_even_upper: "y \<le> real_of_int k \<Longrightarrow> round_even y \<le> k"
proof -
  assume y: "y \<le> real_of_int k"
  then have f: "\<lfloor>y\<rfloor> \<le> k"
    by (simp add: floor_le_iff)
  show ?thesis
  proof (cases "\<lfloor>y\<rfloor> = k")
    case True
    then have "y = real_of_int k"
      using y by linarith
    then show ?thesis
      by simp
  next
    case False
    then have "\<lfloor>y\<rfloor> + 1 \<le> k"
      using f by simp
    then show ?thesis
      by (auto simp add: round_even_def Let_def)
  qed
qed

lemma round_mag_lower:
  assumes "- 1022 \<le> e" and "pow2 e \<le> a"
  shows "pow2 e \<le> round_mag a"
proof -
  have a: "0 < a"
    using assms(2) pow2_pos [of e] by linarith
  define f where "f = \<lfloor>log 2 a\<rfloor>"
  have low: "pow2 f \<le> a" and up: "a < pow2 (f + 1)"
    unfolding f_def using a by (rule floor_log2_bounds)+
  have "pow2 e < pow2 (f + 1)"
    using assms(2) up by linarith
  then have ef: "e \<le> f"
    by simp
  then have b: "binade a = f"
    using assms(1) by (simp add: binade_def f_def)
  have "pow2 f = pow2 (52 + (f - 52))"
    by simp
  also have "\<dots> = real_of_int (2 ^ 52) * pow2 (f - 52)"
    unfolding pow2_add by (simp add: pow2_nat)
  finally have split: "pow2 f = real_of_int (2 ^ 52) * pow2 (f - 52)" .
  then have "real_of_int (2 ^ 52) \<le> a / pow2 (f - 52)"
    using low by (simp add: pos_le_divide_eq)
  then have "2 ^ 52 \<le> round_even (a / pow2 (f - 52))"
    by (rule round_even_lower)
  then have "real_of_int (2 ^ 52) \<le> real_of_int (round_even (a / pow2 (f - 52)))"
    by (simp only: of_int_le_iff)
  then have "pow2 f \<le> round_mag a"
    unfolding split round_mag_def b by (intro mult_right_mono) simp_all
  moreover have "pow2 e \<le> pow2 f"
    using ef by simp
  ultimately show ?thesis
    by linarith
qed

lemma round_mag_upper:
  assumes "- 1022 \<le> e" and "0 < a" and "a \<le> pow2 e"
  shows "round_mag a \<le> pow2 e"
proof -
  define f where "f = \<lfloor>log 2 a\<rfloor>"
  define b where "b = binade a"
  have low: "pow2 f \<le> a"
    unfolding f_def using assms(2) by (rule floor_log2_bounds)
  then have "pow2 f \<le> pow2 e"
    using assms(3) by linarith
  then have "f \<le> e"
    by simp
  then have be: "b \<le> e"
    using assms(1) by (simp add: b_def binade_def f_def)
  have "0 \<le> e - b + 52"
    using be by simp
  then have "pow2 (e - b + 52) = real_of_int (2 ^ nat (e - b + 52))"
    by (rule pow2_nat)
  moreover have "pow2 (e - b + 52) * pow2 (b - 52) = pow2 e"
    unfolding pow2_add [symmetric] by simp
  ultimately have split: "pow2 e = real_of_int (2 ^ nat (e - b + 52)) * pow2 (b - 52)"
    by simp
  then have "a / pow2 (b - 52) \<le> real_of_int (2 ^ nat (e - b + 52))"
    using assms(3) by (simp add: pos_divide_le_eq)
  then have "round_even (a / pow2 (b - 52)) \<le> 2 ^ nat (e - b + 52)"
    by (rule round_even_upper)
  then have "real_of_int (round_even (a / pow2 (b - 52))) \<le> real_of_int (2 ^ nat (e - b + 52))"
    by (simp only: of_int_le_iff)
  then show ?thesis
    unfolding split round_mag_def b_def [symmetric] by (intro mult_right_mono) simp_all
qed

lemma round64_between:
  assumes "- 1022 \<le> e" and "e' < 1024" and "pow2 e \<le> x" and "x \<le> pow2 e'"
  shows "\<exists>y. round64 x = Fin y \<and> pow2 e \<le> y \<and> y \<le> pow2 e'"
proof -
  have x: "0 < x"
    using assms(3) pow2_pos [of e] by linarith
  then have ax: "\<bar>x\<bar> = x"
    by simp
  have "pow2 e \<le> pow2 e'"
    using assms(3,4) by linarith
  then have e': "- 1022 \<le> e'"
    using assms(1) by simp
  have low: "pow2 e \<le> round_mag x"
    using assms(1,3) by (rule round_mag_lower)
  have up: "round_mag x \<le> pow2 e'"
    using e' x assms(4) by (rule round_mag_upper)
  have "pow2 e' < pow2 1024"
    using assms(2) by simp
  then have "round_mag x < pow2 1024"
    using up by linarith
  moreover have "0 < round_mag x"
    using low pow2_pos [of e] by linarith
  ultimately have "round64 x = Fin (round_mag x)"
    using round64_mag [of x "round_mag x"] x ax by simp
  then show ?thesis
    using low up by simp
qed

lemma round64_minus:
  assumes "x \<noteq> 0"
  shows "round64 (- x) = np_neg (round64 x)"
  using assms by (auto simp add: round64_def np_neg_def signed_inf_def signed_zero_def)

lemma round64_zero [simp]: "round64 0 = Fin 0"
  by (simp add: round64_def)

lemma round64_nonneg:
  assumes "0 \<le> x"
  shows "round64 x = PInf \<or> (\<exists>y. round64 x = Fin y \<and> 0 \<le> y)"
  using assms round64_cases [of x] by (auto simp add: signed_inf_def signed_zero_def)

lemma round64_nonpos:
  assumes "x \<le> 0"
  shows "round64 x = NInf \<or> round64 x = NegZero \<or> (\<exists>y. round64 x = Fin y \<and> y \<le> 0)"
proof (cases "x = 0")
  case True
  then show ?thesis
    by simp
next
  case False
  then show ?thesis
    using assms round64_cases [of x] by (auto simp add: signed_inf_def signed_zero_def)
qed

lemma round64_not_NaN [simp]: "round64 x \<noteq> NaN"
  using round64_cases [of x] by (auto simp add: signed_inf_def signed_zero_def split: if_splits)

subsection \<open>The libraries\<close>

lemma binomial_mass_nonneg:
  assumes "0 \<le> p" and "p \<le> 1"
  shows "0 \<le> binomial_mass n p i"
  using assms by (simp add: binomial_mass_def)

lemma exact_library_numpy_like: "numpy_like exact_library"
  unfolding numpy_like_def exact_library_def
  by (auto simp add: fl_le_def binomial_mass_nonneg split: npfloat.splits)

lemma numpy_like_numpy: "numpy_like numpy"
  unfolding numpy_def by (rule someI [of numpy_like exact_library]) (rule exact_library_numpy_like)

lemma lib_exp_range: "lib_exp numpy x = PInf \<or> (\<exists>y. lib_exp numpy x = Fin y \<and> 0 \<le> y)"
  using numpy_like_numpy unfolding numpy_like_def by blast

lemma lib_exp_zero: "lib_exp numpy 0 = Fin 1"
  using numpy_like_numpy unfolding numpy_like_def by blast


lemma lib_exp_le_1: "x \<le> 0 \<Longrightarrow> fl_le (lib_exp numpy x) (Fin 1)"
  using numpy_like_numpy unfolding numpy_like_def by blast



lemma lib_log_finite: "0 < x \<Longrightarrow> \<exists>y. lib_log numpy x = Fin y"
  using numpy_like_numpy unfolding numpy_like_def by blast

lemma binom_pmf_returns:
  "0 \<le> k \<Longrightarrow> k \<le> n \<Longrightarrow> n < 2 ^ 63 \<Longrightarrow> \<exists>v. binom_pmf k n p = Inr v"
  using numpy_like_numpy unfolding numpy_like_def binom_pmf_def by blast

lemma binom_pmf_nonneg: "binom_pmf k n p = Inr v \<Longrightarrow> v = NaN \<or> fl_le (Fin 0) v"
  using numpy_like_numpy unfolding numpy_like_def binom_pmf_def by blast

lemma binom_pmf_invalid:
  "binom_pmf k n p = Inr v \<Longrightarrow> \<not> (fl_le (Fin 0) p \<and> fl_le p (Fin 1)) \<Longrightarrow> v = NaN"
  using numpy_like_numpy unfolding numpy_like_def binom_pmf_def by blast

lemma np_power_returns: "0 \<le> k \<Longrightarrow> k < 2 ^ 63 \<Longrightarrow> \<exists>v. np_power x k = Inr v"
  using numpy_like_numpy unfolding numpy_like_def np_power_def by blast

lemma lib_max_zero_pos: "\<not> lib_max_zero numpy False False"
  using numpy_like_numpy unfolding numpy_like_def by blast

lemma lib_max_zero_neg: "lib_max_zero numpy True True"
  using numpy_like_numpy unfolding numpy_like_def by blast

lemma np_exp_range: "np_exp a = NaN \<or> np_exp a = PInf \<or> (\<exists>y. np_exp a = Fin y \<and> 0 \<le> y)"
  using lib_exp_range [of 0] lib_exp_range [of "val a"]
  by (cases a) (auto simp add: np_exp_def)

lemma np_exp_NaN_iff: "np_exp a = NaN \<longleftrightarrow> a = NaN"
  using lib_exp_range [of 0] lib_exp_range [of "val a"]
  by (cases a) (auto simp add: np_exp_def)

lemma np_exp_zero: "is_zero a \<Longrightarrow> np_exp a = Fin 1"
  using lib_exp_zero by (cases a) (auto simp add: np_exp_def)


lemma np_exp_le_1: "fl_le a (Fin 0) \<Longrightarrow> fl_le (np_exp a) (Fin 1)"
  using lib_exp_le_1 [of 0] lib_exp_le_1 [of "val a"]
  by (cases a) (auto simp add: np_exp_def fl_le_def)



lemma np_log_finite: "0 < x \<Longrightarrow> \<exists>y. np_log (Fin x) = Fin y"
  using lib_log_finite [of x] by (simp add: np_log_def)

subsection \<open>The operations on \<open>NaN\<close>\<close>

lemma np_add_NaN [simp]: "np_add a NaN = NaN" "np_add NaN a = NaN"
  by (simp_all add: np_add_def)

lemma np_neg_NaN [simp]: "np_neg NaN = NaN"
  by (simp add: np_neg_def)

lemma np_neg_eq_NaN_iff [simp]: "np_neg a = NaN \<longleftrightarrow> a = NaN"
  by (cases a) (simp_all add: np_neg_def)

lemma np_sub_NaN [simp]: "np_sub a NaN = NaN" "np_sub NaN a = NaN"
  by (simp_all add: np_sub_def)

lemma np_mul_NaN [simp]: "np_mul a NaN = NaN" "np_mul NaN a = NaN"
  by (simp_all add: np_mul_def)

lemma np_div_NaN [simp]: "np_div a NaN = NaN" "np_div NaN a = NaN"
  by (simp_all add: np_div_def)


lemma np_add_commute: "np_add a b = np_add b a"
  by (cases a; cases b) (auto simp add: np_add_def add.commute signed_inf_def signed_zero_def)

subsection \<open>The loop\<close>

lemma accumulate_Nil [simp]: "accumulate price [] = price"
  by (simp add: accumulate_def)

lemma accumulate_Cons [simp]:
  "accumulate price ((spotT, po, prob) # lines) = accumulate (np_add price (np_mul po prob)) lines"
  by (simp add: accumulate_def)

lemma accumulate_append:
  "accumulate price (xs @ ys) = accumulate (accumulate price xs) ys"
  by (simp add: accumulate_def)

lemma for_loop_node_step:
  "for_loop (node_step S K n u d pstar payoff verbose) idx (price, printed) =
     (case collect_lines (node_values S K n u d pstar payoff) idx of
        Inl e \<Rightarrow> Inl e
      | Inr lines \<Rightarrow> Inr (accumulate price lines, if verbose then printed @ lines else printed))"
proof (induction idx arbitrary: price printed)
  case Nil
  show ?case
    by simp
next
  case (Cons i rest)
  show ?case
  proof (cases "node_values S K n u d pstar payoff i")
    case (Inl e)
    then show ?thesis
      by (simp add: node_step_def)
  next
    case (Inr x)
    obtain spotT po prob where x: "x = (spotT, po, prob)"
      by (cases x)
    show ?thesis
      using Inr x Cons.IH [of "np_add price (np_mul po prob)"]
      by (simp add: node_step_def split: sum.splits)
  qed
qed

lemma collect_lines_Inr_iff: "collect_lines f idx = Inr lines \<longleftrightarrow> map f idx = map Inr lines"
proof (induction idx arbitrary: lines)
  case Nil
  show ?case
    by auto
next
  case (Cons i rest)
  show ?case
  proof (cases "f i")
    case (Inl e)
    then show ?thesis
      by (cases lines) auto
  next
    case (Inr x)
    have "collect_lines f (i # rest) = Inr lines
        \<longleftrightarrow> (\<exists>xs. collect_lines f rest = Inr xs \<and> lines = x # xs)"
      using Inr by (auto split: sum.splits)
    also have "\<dots> \<longleftrightarrow> (\<exists>xs. map f rest = map Inr xs \<and> lines = x # xs)"
      by (simp add: Cons.IH)
    also have "\<dots> \<longleftrightarrow> map f (i # rest) = map Inr lines"
      using Inr by (cases lines) auto
    finally show ?thesis .
  qed
qed

lemma collect_lines_returns:
  assumes "\<And>i. i \<in> set idx \<Longrightarrow> \<exists>x. f i = Inr x"
  shows "\<exists>lines. collect_lines f idx = Inr lines"
  using assms
proof (induction idx)
  case Nil
  show ?case
    by simp
next
  case (Cons i rest)
  obtain x where "f i = Inr x"
    using Cons.prems [of i] by auto
  moreover obtain xs where "collect_lines f rest = Inr xs"
    using Cons.IH Cons.prems by auto
  ultimately show ?case
    by simp
qed


lemma terminal_price_returns:
  assumes "int i \<le> n" and "n < 2 ^ 63"
  shows "\<exists>x. terminal_price S u d n i = Inr x"
proof -
  obtain a where "np_power u (int i) = Inr a"
    using np_power_returns [of "int i" u] assms by auto
  moreover obtain b where "np_power d (n - int i) = Inr b"
    using np_power_returns [of "n - int i" d] assms by auto
  ultimately show ?thesis
    by (simp add: terminal_price_def)
qed

lemma node_values_returns:
  assumes "int i \<le> n" and "n < 2 ^ 63"
  shows "\<exists>x. node_values S K n u d pstar payoff i = Inr x"
proof -
  obtain prob where "binom_pmf (int i) n pstar = Inr prob"
    using binom_pmf_returns [of "int i" n pstar] assms by auto
  moreover obtain spotT where "terminal_price S u d n i = Inr spotT"
    using terminal_price_returns [of i n S u d] assms by auto
  ultimately show ?thesis
    by (simp add: node_values_def)
qed

lemma node_lines_returns:
  assumes "n < 2 ^ 63"
  shows "\<exists>lines. collect_lines (node_values S K n u d pstar payoff) [0..<nat (n + 1)] = Inr lines"
proof (rule collect_lines_returns)
  fix i
  assume "i \<in> set [0..<nat (n + 1)]"
  then have "int i \<le> n"
    by auto
  then show "\<exists>x. node_values S K n u d pstar payoff i = Inr x"
    using assms by (rule node_values_returns)
qed

subsection \<open>The conversion of \<open>n\<close>\<close>

lemma py_float_of_int_pos:
  assumes "1 \<le> m" and "m < 2 ^ 63"
  shows "\<exists>y. py_float_of_int m = Inr (Fin y) \<and> 1 \<le> y"
proof -
  have "pow2 0 \<le> real_of_int m"
    using assms(1) by (simp add: pow2_def)
  moreover have "real_of_int m \<le> real_of_int (2 ^ 63)"
    using assms(2) by simp
  then have "real_of_int m \<le> pow2 63"
    by (simp add: pow2_nat)
  ultimately obtain y where "round64 (real_of_int m) = Fin y" and "pow2 0 \<le> y"
    using round64_between [of 0 63 "real_of_int m"] by auto
  then show ?thesis
    by (simp add: py_float_of_int_def pow2_def)
qed

lemma py_float_of_int_neg:
  assumes "m < 0" and "- (2 ^ 1023) \<le> m"
  shows "\<exists>y. py_float_of_int m = Inr (Fin y) \<and> y \<le> - 1"
proof -
  have "pow2 0 \<le> real_of_int (- m)"
    using assms(1) by (simp add: pow2_def)
  moreover have "- m \<le> 2 ^ 1023"
    using assms(2) by linarith
  then have "real_of_int (- m) \<le> real_of_int (2 ^ 1023)"
    by (simp only: of_int_le_iff)
  then have "real_of_int (- m) \<le> pow2 1023"
    by (simp only: pow2_nat [of 1023]) simp
  ultimately obtain y where y: "round64 (real_of_int (- m)) = Fin y" "pow2 0 \<le> y"
    using round64_between [of 0 1023 "real_of_int (- m)"] by auto
  have "round64 (real_of_int m) = np_neg (round64 (real_of_int (- m)))"
    using round64_minus [of "real_of_int (- m)"] assms(1) by simp
  then have "round64 (real_of_int m) = Fin (- y)"
    using y by (simp add: np_neg_def pow2_def)
  then show ?thesis
    using y(2) by (simp add: py_float_of_int_def pow2_def)
qed

lemma py_float_of_int_overflow:
  assumes "2 ^ 1024 \<le> \<bar>m\<bar>"
  shows "py_float_of_int m = Inl OverflowError"
proof -
  have "real_of_int (2 ^ 1024) \<le> real_of_int \<bar>m\<bar>"
    using assms by (simp only: of_int_le_iff)
  then have "pow2 1024 \<le> \<bar>real_of_int m\<bar>"
    by (simp only: pow2_nat [of 1024]) simp
  then have "round64 (real_of_int m) = signed_inf (real_of_int m < 0)"
    by (rule round64_overflow)
  then show ?thesis
    by (simp add: py_float_of_int_def signed_inf_def)
qed

lemma py_float_of_int_zero: "py_float_of_int 0 = Inr (Fin 0)"
  by (simp add: py_float_of_int_def)

subsection \<open>The lattice pricer, case by case\<close>

lemma binomialPricer_PyFloat:
  "binomialPricer S K r v q T (PyFloat x) payoff verbose =
     (if is_zero x then Inl ZeroDivisionError else Inl TypeError)"
  by (simp add: binomialPricer_def py_truediv_num_def py_truediv_def py_add_one_def py_range_def)

lemma binomialPricer_PyInt_error:
  "py_float_of_int m = Inl e \<Longrightarrow> binomialPricer S K r v q T (PyInt m) payoff verbose = Inl e"
  by (simp add: binomialPricer_def py_truediv_num_def)

lemma binomialPricer_PyInt:
  assumes "py_float_of_int m = Inr fm"
  shows "binomialPricer S K r v q T (PyInt m) payoff verbose =
     (if is_zero fm then Inl ZeroDivisionError
      else case collect_lines (node_values S K m (lattice_u r q v (np_div T fm))
                 (lattice_d r q v (np_div T fm)) (lattice_pstar r q v (np_div T fm)) payoff)
                [0..<nat (m + 1)] of
             Inl e \<Rightarrow> Inl e
           | Inr lines \<Rightarrow>
               Inr (if verbose then lines else [],
                    np_mul (accumulate (Fin 0) lines) (np_exp (np_mul (np_neg r) T))))"
  using assms
  by (simp add: binomialPricer_def py_truediv_num_def py_truediv_def py_add_one_def py_range_def
      for_loop_node_step split: sum.splits)

lemma py_truediv_num_PyInt:
  "py_truediv_num T (PyInt m) = Inr h \<longleftrightarrow>
     (\<exists>fm. py_float_of_int m = Inr fm \<and> \<not> is_zero fm \<and> h = np_div T fm)"
  by (auto simp add: py_truediv_num_def py_truediv_def split: sum.splits)

lemma binomialPricer_returns_cases:
  assumes "binomialPricer S K r v q T n payoff verbose = Inr (printed, price)"
  shows "\<exists>m h lines. n = PyInt m \<and> py_truediv_num T n = Inr h
           \<and> collect_lines (node_values S K m (lattice_u r q v h) (lattice_d r q v h)
                 (lattice_pstar r q v h) payoff) [0..<nat (m + 1)] = Inr lines
           \<and> printed = (if verbose then lines else [])
           \<and> price = np_mul (accumulate (Fin 0) lines) (np_exp (np_mul (np_neg r) T))"
proof (cases n)
  case (PyFloat x)
  then show ?thesis
    using assms by (simp add: binomialPricer_PyFloat split: if_splits)
next
  case (PyInt m)
  show ?thesis
  proof (cases "py_float_of_int m")
    case (Inl e)
    then show ?thesis
      using assms PyInt by (simp add: binomialPricer_PyInt_error)
  next
    case (Inr fm)
    show ?thesis
      using assms unfolding PyInt binomialPricer_PyInt [OF Inr] py_truediv_num_PyInt
      using Inr by (auto split: if_splits sum.splits)
  qed
qed

lemma binomialPricer_returns:
  assumes "1 \<le> m" and "m < 2 ^ 63"
  shows "\<exists>h lines. py_truediv_num T (PyInt m) = Inr h
           \<and> collect_lines (node_values S K m (lattice_u r q v h) (lattice_d r q v h)
                 (lattice_pstar r q v h) payoff) [0..<nat (m + 1)] = Inr lines
           \<and> binomialPricer S K r v q T (PyInt m) payoff verbose =
               Inr (if verbose then lines else [],
                    np_mul (accumulate (Fin 0) lines) (np_exp (np_mul (np_neg r) T)))"
proof -
  obtain y where fm: "py_float_of_int m = Inr (Fin y)" and y: "1 \<le> y"
    using py_float_of_int_pos [OF assms] by auto
  define h where "h = np_div T (Fin y)"
  obtain lines where lines: "collect_lines (node_values S K m (lattice_u r q v h)
      (lattice_d r q v h) (lattice_pstar r q v h) payoff) [0..<nat (m + 1)] = Inr lines"
    using node_lines_returns [OF assms(2)] by blast
  have "py_truediv_num T (PyInt m) = Inr h"
    using fm y by (simp add: py_truediv_num_PyInt h_def)
  moreover have "binomialPricer S K r v q T (PyInt m) payoff verbose =
      Inr (if verbose then lines else [],
           np_mul (accumulate (Fin 0) lines) (np_exp (np_mul (np_neg r) T)))"
    unfolding binomialPricer_PyInt [OF fm] using y lines by (simp add: h_def)
  ultimately show ?thesis
    using lines by blast
qed

lemma binomialPricer_negative:
  assumes "m < 0" and "- (2 ^ 1023) \<le> m"
  shows "binomialPricer S K r v q T (PyInt m) payoff verbose =
           Inr ([], np_mul (Fin 0) (np_exp (np_mul (np_neg r) T)))"
proof -
  obtain y where fm: "py_float_of_int m = Inr (Fin y)" and y: "y \<le> - 1"
    using py_float_of_int_neg [OF assms] by auto
  have "nat (m + 1) = 0"
    using assms(1) by simp
  then show ?thesis
    unfolding binomialPricer_PyInt [OF fm] using y by simp
qed

subsection \<open>Signs\<close>


lemma round64_nonpos_le: "x \<le> 0 \<Longrightarrow> fl_le (round64 x) (Fin 0)"
  using round64_nonpos [of x] by (auto simp add: fl_le_def)

lemma round64_numeral [simp]:
  "numeral k < (2 ^ 53 :: int) \<Longrightarrow> round64 (numeral k) = Fin (numeral k)"
  using round64_int [of "numeral k"] by simp

lemma round64_one [simp]: "round64 1 = Fin 1"
  using round64_int [of 1] by simp

lemma round64_neg_numeral [simp]:
  "numeral k < (2 ^ 53 :: int) \<Longrightarrow> round64 (- numeral k) = Fin (- numeral k)"
  using round64_int [of "- numeral k"] by simp

lemma py_float_numeral [simp]:
  "numeral k < (2 ^ 53 :: int) \<Longrightarrow> py_float (numeral k) = Fin (numeral k)"
  by (simp add: py_float_def)

lemma py_float_zero [simp]: "py_float 0 = Fin 0"
  by (simp add: py_float_def)

lemma py_float_one [simp]: "py_float 1 = Fin 1"
  by (simp add: py_float_def)

lemma py_float_between:
  assumes "- 1022 \<le> e" and "e' < 1024" and "pow2 e \<le> x" and "x \<le> pow2 e'"
  shows "\<exists>y. py_float x = Fin y \<and> pow2 e \<le> y \<and> y \<le> pow2 e'"
  unfolding py_float_def using assms by (rule round64_between)

lemma np_exp_nonpos:
  assumes "fl_le a (Fin 0)"
  shows "\<exists>y. np_exp a = Fin y \<and> 0 \<le> y \<and> y \<le> 1"
  using np_exp_le_1 [OF assms] np_exp_range [of a] by (auto simp add: fl_le_def)

lemma np_mul_zero_exp:
  assumes "fl_le a (Fin 0)"
  shows "np_mul (Fin 0) (np_exp a) = Fin 0"
proof -
  obtain y where "np_exp a = Fin y" and "0 \<le> y"
    using np_exp_nonpos [OF assms] by auto
  then show ?thesis
    by (simp add: np_mul_def signed_zero_def)
qed

lemma np_mul_neg_pos:
  assumes "0 \<le> x" and "0 \<le> y"
  shows "fl_le (np_mul (np_neg (Fin x)) (Fin y)) (Fin 0)"
proof (cases "x = 0 \<or> y = 0")
  case True
  then show ?thesis
    by (auto simp add: np_mul_def np_neg_def signed_zero_def fl_le_def)
next
  case False
  then have "np_mul (np_neg (Fin x)) (Fin y) = round64 (- x * y)"
    by (simp add: np_mul_def np_neg_def)
  moreover have "- x * y \<le> 0"
    using assms by (simp add: mult_nonneg_nonneg)
  ultimately show ?thesis
    by (simp only: round64_nonpos_le)
qed

subsection \<open>A degenerate lattice\<close>

lemma accumulate_NaN [simp]: "accumulate NaN lines = NaN"
  by (induction lines) (auto simp add: accumulate_def)

lemma accumulate_first_NaN:
  "accumulate price ((spotT, po, NaN) # lines) = NaN"
  by simp

lemma node_values_invalid:
  assumes "node_values S K n u d pstar payoff i = Inr (spotT, po, prob)"
    and "\<not> (fl_le (Fin 0) pstar \<and> fl_le pstar (Fin 1))"
  shows "prob = NaN"
proof -
  have "binom_pmf (int i) n pstar = Inr prob"
    using assms(1) by (auto simp add: node_values_def split: sum.splits)
  then show ?thesis
    using assms(2) by (rule binom_pmf_invalid)
qed

lemma np_sub_self:
  assumes "a = NaN \<or> a = PInf \<or> (\<exists>y. a = Fin y)"
  shows "np_sub a a = NaN \<or> np_sub a a = Fin 0"
  using assms by (cases a) (auto simp add: np_sub_def np_add_def np_neg_def signed_zero_def)

lemma np_div_zero: "np_div a (Fin 0) = NaN \<or> is_inf (np_div a (Fin 0))"
  by (cases a) (auto simp add: np_div_def signed_inf_def)

lemma lattice_u_range:
  "lattice_u r q v h = NaN \<or> lattice_u r q v h = PInf \<or> (\<exists>y. lattice_u r q v h = Fin y \<and> 0 \<le> y)"
  unfolding lattice_u_def by (rule np_exp_range)

lemma lattice_d_range:
  "lattice_d r q v h = NaN \<or> lattice_d r q v h = PInf \<or> (\<exists>y. lattice_d r q v h = Fin y \<and> 0 \<le> y)"
  unfolding lattice_d_def by (rule np_exp_range)

lemma lattice_pstar_degenerate:
  assumes "lattice_u r q v h = lattice_d r q v h"
  shows "\<not> (fl_le (Fin 0) (lattice_pstar r q v h) \<and> fl_le (lattice_pstar r q v h) (Fin 1))"
proof -
  define d where "d = lattice_d r q v h"
  have "d = NaN \<or> d = PInf \<or> (\<exists>y. d = Fin y)"
    using lattice_d_range [of r q v h] unfolding d_def by auto
  then have "np_sub d d = NaN \<or> np_sub d d = Fin 0"
    by (rule np_sub_self)
  then have "lattice_pstar r q v h = NaN \<or> is_inf (lattice_pstar r q v h)"
    unfolding lattice_pstar_def assms d_def [symmetric]
    using np_div_zero [of "np_sub (np_exp (np_mul (np_sub r q) h)) d"] by auto
  then show ?thesis
    by (cases "lattice_pstar r q v h") (auto simp add: fl_le_def)
qed

lemma binomialPricer_invalid_pstar:
  assumes "1 \<le> m" and "m < 2 ^ 63" and "py_truediv_num T (PyInt m) = Inr h"
    and "\<not> (fl_le (Fin 0) (lattice_pstar r q v h) \<and> fl_le (lattice_pstar r q v h) (Fin 1))"
  shows "\<exists>lines. binomialPricer S K r v q T (PyInt m) payoff verbose =
           Inr (if verbose then lines else [], NaN)"
proof -
  obtain h' lines where h': "py_truediv_num T (PyInt m) = Inr h'"
    and lines: "collect_lines (node_values S K m (lattice_u r q v h') (lattice_d r q v h')
        (lattice_pstar r q v h') payoff) [0..<nat (m + 1)] = Inr lines"
    and run: "binomialPricer S K r v q T (PyInt m) payoff verbose =
        Inr (if verbose then lines else [],
             np_mul (accumulate (Fin 0) lines) (np_exp (np_mul (np_neg r) T)))"
    using binomialPricer_returns [OF assms(1,2), where T = T and S = S and K = K and r = r
        and v = v and q = q and payoff = payoff and verbose = verbose] by blast
  have hh: "h' = h"
    using h' assms(3) by simp
  have "[0..<nat (m + 1)] = 0 # [1..<nat (m + 1)]"
    using assms(1) by (simp add: upt_conv_Cons)
  then obtain x rest where split: "lines = x # rest"
    and x: "node_values S K m (lattice_u r q v h) (lattice_d r q v h)
        (lattice_pstar r q v h) payoff 0 = Inr x"
    using lines unfolding hh by (auto split: sum.splits)
  obtain spotT po prob where tuple: "x = (spotT, po, prob)"
    by (cases x)
  have "prob = NaN"
    using x assms(4) unfolding tuple by (rule node_values_invalid)
  then have "accumulate (Fin 0) lines = NaN"
    unfolding split tuple by simp
  then show ?thesis
    using run by simp
qed

subsection \<open>The closed-form pricer, case by case\<close>

lemma blackScholesCall_zero_strike:
  "is_zero strike \<Longrightarrow> blackScholesCall spot strike vol rate expiry div' = Inl ZeroDivisionError"
  by (simp add: blackScholesCall_def bs_d1_def py_truediv_def)

lemma blackScholesCall_value:
  assumes "\<not> is_zero strike"
  shows "blackScholesCall spot strike vol rate expiry div' =
     Inr (let d1 = np_div (np_add (np_log (np_div spot strike))
                             (np_mul (np_add (np_sub rate div') (np_mul (np_mul (Fin (1 / 2)) vol) vol))
                                expiry))
                      (np_mul vol (np_sqrt expiry));
              d2 = np_sub d1 (np_mul vol (np_sqrt expiry))
          in np_sub (np_mul (np_mul spot (np_exp (np_mul (np_neg div') expiry))) (norm_cdf d1))
                    (np_mul (np_mul strike (np_exp (np_mul (np_neg rate) expiry))) (norm_cdf d2)))"
  using assms
  by (simp add: blackScholesCall_def bs_d1_def bs_d2_def bs_price_def py_truediv_def Let_def)

lemma blackScholesCall_NaN:
  assumes "\<not> is_zero strike"
    and "np_div (np_add (np_log (np_div spot strike))
                   (np_mul (np_add (np_sub rate div') (np_mul (np_mul (Fin (1 / 2)) vol) vol)) expiry))
                (np_mul vol (np_sqrt expiry)) = NaN"
  shows "blackScholesCall spot strike vol rate expiry div' = Inr NaN"
  unfolding blackScholesCall_value [OF assms(1)] Let_def assms(2) by (simp add: norm_cdf_def)

subsection \<open>Powers of two\<close>

lemma round64_pow2:
  assumes "- 1074 \<le> e" and "e < 1024"
  shows "round64 (pow2 e) = Fin (pow2 e)"
  using round64_exact [of "pow2 e" 1 e] assms by simp

lemma round64_pow2_overflow:
  assumes "1024 \<le> e"
  shows "round64 (pow2 e) = PInf"
  using round64_overflow [of "pow2 e"] assms pow2_pos [of e]
  by (simp add: signed_inf_def not_less less_imp_le del: pow2_pos)

lemma sqrt_pow2: "sqrt (pow2 (2 * k)) = pow2 k"
proof -
  have "pow2 (2 * k) = pow2 k * pow2 k"
    unfolding pow2_add [symmetric] by simp
  then show ?thesis
    by (simp add: real_sqrt_mult)
qed

lemma pow2_half: "pow2 e / 2 = pow2 (e - 1)"
proof -
  have "pow2 e = pow2 (e - 1) * pow2 1"
    unfolding pow2_add [symmetric] by simp
  then show ?thesis
    by (simp add: pow2_def)
qed

lemma pow2_not_less_0 [simp]: "\<not> pow2 e < 0"
  using pow2_pos [of e] by (simp only: not_less less_imp_le)

subsection \<open>An overflow in \<open>d1\<close>\<close>

lemma bs_d1_overflow:
  assumes a: "512 < a" "a < 1024" and b: "0 \<le> b" "b < 512" and ab: "1024 \<le> a + b"
  shows "np_div (np_add (np_log (np_div (Fin 41) (Fin 40)))
            (np_mul (np_add (np_sub (py_float (8 / 100)) (Fin 0))
               (np_mul (np_mul (Fin (1 / 2)) (Fin (pow2 a))) (Fin (pow2 a)))) (Fin (pow2 (2 * b)))))
          (np_mul (Fin (pow2 a)) (np_sqrt (Fin (pow2 (2 * b))))) = NaN"
proof -
  obtain c where c: "py_float (8 / 100) = Fin c" and c4: "pow2 (- 4) \<le> c" and c3: "c \<le> pow2 (- 3)"
    using py_float_between [of "- 4" "- 3" "8 / 100"] by (auto simp add: pow2_def power_int_minus)
  obtain m where m: "round64 (41 / 40) = Fin m" and m0: "pow2 0 \<le> m"
    using round64_between [of 0 1 "41 / 40"] by (auto simp add: pow2_def)
  have "0 < m"
    using m0 pow2_pos [of 0] by linarith
  then obtain l where l: "np_log (Fin m) = Fin l"
    using np_log_finite by blast
  obtain c' where c': "round64 c = Fin c'"
    using round64_between [OF _ _ c4 c3] by auto
  have cpos: "0 < c"
    using c4 pow2_pos [of "- 4"] by linarith
  have rate: "np_sub (Fin c) (Fin 0) = Fin c'"
    using cpos c' by (simp add: np_sub_def np_add_def np_neg_def)
  have half: "np_mul (Fin (1 / 2)) (Fin (pow2 a)) = Fin (pow2 (a - 1))"
    using round64_pow2 [of "a - 1"] a by (simp add: np_mul_def pow2_half)
  have "pow2 (a - 1) * pow2 a = pow2 (2 * a - 1)"
    unfolding pow2_add [symmetric] by simp
  then have square: "np_mul (Fin (pow2 (a - 1))) (Fin (pow2 a)) = PInf"
    using round64_pow2_overflow [of "2 * a - 1"] a by (simp add: np_mul_def)
  have num: "np_add (Fin l) (np_mul (np_add (Fin c') PInf) (Fin (pow2 (2 * b)))) = PInf"
    by (simp add: np_add_def np_mul_def signed_inf_def)
  have root: "np_sqrt (Fin (pow2 (2 * b))) = Fin (pow2 b)"
    using round64_pow2 [of b] b by (simp add: np_sqrt_def sqrt_pow2)
  have "pow2 a * pow2 b = pow2 (a + b)"
    unfolding pow2_add [symmetric] by simp
  then have den: "np_mul (Fin (pow2 a)) (Fin (pow2 b)) = PInf"
    using round64_pow2_overflow [of "a + b"] ab by (simp add: np_mul_def)
  have quot: "np_div (Fin 41) (Fin 40) = Fin m"
    using m by (simp add: np_div_def)
  show ?thesis
    unfolding c quot l rate half square num root den by (simp add: np_div_def)
qed

subsection \<open>Numbers that are not negative\<close>

lemma not_negative_cases:
  "not_negative a \<longleftrightarrow> a = NaN \<or> a = PInf \<or> a = NegZero \<or> (\<exists>x. a = Fin x \<and> 0 \<le> x)"
  by (cases a) (auto simp add: not_negative_def fl_le_def)

lemma not_negative_round64: "0 \<le> x \<Longrightarrow> not_negative (round64 x)"
  using round64_nonneg [of x] by (auto simp add: not_negative_cases)

lemma not_negative_signed_zero [simp]: "not_negative (signed_zero s)"
  by (simp add: not_negative_def fl_le_def signed_zero_def)

lemma not_negative_NaN [simp]: "not_negative NaN"
  by (simp add: not_negative_def)

lemma not_negative_PInf [simp]: "not_negative PInf"
  by (simp add: not_negative_def fl_le_def)

lemma fl_le_zero_val: "fl_le (Fin 0) a \<Longrightarrow> 0 \<le> val a"
  by (cases a) (simp_all add: fl_le_def)

lemma fl_le_zero_signbit: "fl_le (Fin 0) a \<Longrightarrow> \<not> is_zero a \<Longrightarrow> \<not> signbit a"
  by (cases a) (simp_all add: fl_le_def)

lemma fl_le_zero_inf: "fl_le (Fin 0) a \<Longrightarrow> is_inf a \<Longrightarrow> a = PInf"
  by (cases a) (simp_all add: fl_le_def)

lemma is_inf_not_zero: "is_inf a \<Longrightarrow> \<not> is_zero a"
  by (cases a) simp_all

lemma not_negative_mul:
  assumes "not_negative a" and "not_negative b"
  shows "not_negative (np_mul a b)"
proof (cases "a = NaN \<or> b = NaN")
  case True
  then show ?thesis
    by auto
next
  case False
  then have a: "fl_le (Fin 0) a" and b: "fl_le (Fin 0) b"
    using assms by (simp_all add: not_negative_def)
  consider "(is_inf a \<and> is_zero b) \<or> (is_zero a \<and> is_inf b)"
    | "\<not> ((is_inf a \<and> is_zero b) \<or> (is_zero a \<and> is_inf b))" "is_inf a \<or> is_inf b"
    | "\<not> (is_inf a \<or> is_inf b)" "is_zero a \<or> is_zero b"
    | "\<not> (is_inf a \<or> is_inf b)" "\<not> (is_zero a \<or> is_zero b)"
    by blast
  then show ?thesis
  proof cases
    case 1
    then show ?thesis
      using False by (simp add: np_mul_def)
  next
    case 2
    then have "\<not> is_zero a" and "\<not> is_zero b"
      using is_inf_not_zero [of a] is_inf_not_zero [of b] by auto
    then have "\<not> signbit a" and "\<not> signbit b"
      using a b by (simp_all add: fl_le_zero_signbit)
    then show ?thesis
      using False 2 by (simp add: np_mul_def signed_inf_def)
  next
    case 3
    then show ?thesis
      using False by (simp add: np_mul_def)
  next
    case 4
    have "0 \<le> val a * val b"
      using a b by (intro mult_nonneg_nonneg fl_le_zero_val)
    then have "not_negative (round64 (val a * val b))"
      by (rule not_negative_round64)
    then show ?thesis
      using False 4 by (simp add: np_mul_def)
  qed
qed

lemma not_negative_add:
  assumes "not_negative a" and "not_negative b"
  shows "not_negative (np_add a b)"
proof (cases "a = NaN \<or> b = NaN")
  case True
  then show ?thesis
    by auto
next
  case False
  then have a: "fl_le (Fin 0) a" and b: "fl_le (Fin 0) b"
    using assms by (simp_all add: not_negative_def)
  consider "is_inf a \<or> is_inf b"
    | "\<not> (is_inf a \<or> is_inf b)" "is_zero a \<and> is_zero b"
    | "\<not> (is_inf a \<or> is_inf b)" "\<not> (is_zero a \<and> is_zero b)"
    by blast
  then show ?thesis
  proof cases
    case 1
    then show ?thesis
      using False a b fl_le_zero_inf [of a] fl_le_zero_inf [of b] by (auto simp add: np_add_def)
  next
    case 2
    then show ?thesis
      using False by (simp add: np_add_def)
  next
    case 3
    have "0 \<le> val a + val b"
      using a b by (intro add_nonneg_nonneg fl_le_zero_val)
    then have "not_negative (round64 (val a + val b))"
      by (rule not_negative_round64)
    then show ?thesis
      using False 3 by (simp add: np_add_def)
  qed
qed

lemma not_negative_exp: "not_negative (np_exp a)"
  using np_exp_range [of a] by (auto simp add: not_negative_cases)

lemma not_negative_maximum_zero: "not_negative (np_maximum a (Fin 0))"
  by (cases a) (auto simp add: np_maximum_def not_negative_def fl_le_def signed_zero_def)

lemma not_negative_callPayoff: "not_negative (callPayoff spot strike)"
  unfolding callPayoff_def by (rule not_negative_maximum_zero)

lemma not_negative_putPayoff: "not_negative (putPayoff spot strike)"
  unfolding putPayoff_def by (rule not_negative_maximum_zero)

lemma not_negative_accumulate:
  assumes "not_negative price"
    and "\<And>spotT po prob. (spotT, po, prob) \<in> set lines \<Longrightarrow> not_negative po \<and> not_negative prob"
  shows "not_negative (accumulate price lines)"
  using assms
proof (induction lines arbitrary: price)
  case Nil
  then show ?case
    by simp
next
  case (Cons x rest)
  obtain spotT po prob where x: "x = (spotT, po, prob)"
    by (cases x)
  have "not_negative po \<and> not_negative prob"
    using Cons.prems(2) [of spotT po prob] x by simp
  then have "not_negative (np_add price (np_mul po prob))"
    using Cons.prems(1) by (intro not_negative_add not_negative_mul) simp_all
  then have "not_negative (accumulate (np_add price (np_mul po prob)) rest)"
    using Cons.prems(2) by (intro Cons.IH) auto
  then show ?case
    unfolding x by simp
qed

lemma node_values_not_negative:
  assumes "node_values S K n u d pstar payoff i = Inr (spotT, po, prob)"
    and "\<And>s k. not_negative (payoff s k)"
  shows "not_negative po \<and> not_negative prob"
proof -
  have "binom_pmf (int i) n pstar = Inr prob" and "po = payoff spotT K"
    using assms(1) by (auto simp add: node_values_def split: sum.splits)
  then show ?thesis
    using binom_pmf_nonneg [of "int i" n pstar prob] assms(2) by (auto simp add: not_negative_def)
qed

lemma binomialPricer_not_negative:
  assumes "binomialPricer S K r v q T n payoff verbose = Inr (printed, price)"
    and "\<And>s k. not_negative (payoff s k)"
  shows "not_negative price"
proof -
  obtain m h lines where lines: "collect_lines (node_values S K m (lattice_u r q v h)
      (lattice_d r q v h) (lattice_pstar r q v h) payoff) [0..<nat (m + 1)] = Inr lines"
    and price: "price = np_mul (accumulate (Fin 0) lines) (np_exp (np_mul (np_neg r) T))"
    using binomialPricer_returns_cases [OF assms(1)] by blast
  have "not_negative po \<and> not_negative prob" if "(spotT, po, prob) \<in> set lines" for spotT po prob
  proof -
    have "Inr (spotT, po, prob) \<in> set (map Inr lines)"
      using that by simp
    then have "Inr (spotT, po, prob) \<in> set (map (node_values S K m (lattice_u r q v h)
        (lattice_d r q v h) (lattice_pstar r q v h) payoff) [0..<nat (m + 1)])"
      using lines unfolding collect_lines_Inr_iff by simp
    then obtain i where "node_values S K m (lattice_u r q v h) (lattice_d r q v h)
        (lattice_pstar r q v h) payoff i = Inr (spotT, po, prob)"
      by auto
    then show ?thesis
      using assms(2) by (rule node_values_not_negative)
  qed
  moreover have "not_negative (Fin 0)"
    by (simp add: not_negative_def fl_le_def)
  ultimately have "not_negative (accumulate (Fin 0) lines)"
    by (intro not_negative_accumulate) auto
  then show ?thesis
    unfolding price by (intro not_negative_mul not_negative_exp)
qed

subsection \<open>Some roundings\<close>

lemma round64_dyadic:
  assumes "\<bar>m\<bar> < 2 ^ 53" and "k \<le> 1074"
  shows "round64 (real_of_int m / 2 ^ k) = Fin (real_of_int m / 2 ^ k)"
proof -
  have "real_of_int m / 2 ^ k = real_of_int m * pow2 (- int k)"
    by (simp add: pow2_def power_int_minus divide_inverse)
  moreover have "\<bar>real_of_int m\<bar> * 1 \<le> \<bar>real_of_int m\<bar> * 2 ^ k"
    by (intro mult_left_mono) simp_all
  then have "\<bar>real_of_int m / 2 ^ k\<bar> \<le> \<bar>real_of_int m\<bar>"
    by (simp add: abs_divide divide_le_eq)
  moreover have "\<bar>real_of_int m\<bar> < real_of_int (2 ^ 53)"
    using assms(1) by (simp only: of_int_abs [symmetric] of_int_less_iff)
  moreover have "real_of_int (2 ^ 53) = pow2 53"
    by (simp add: pow2_nat)
  moreover have "pow2 53 < pow2 1024"
    by simp
  ultimately show ?thesis
    using assms by (intro round64_exact [where m = m and k = "- int k"]) auto
qed

lemma round64_eighth [simp]: "round64 (1 / 8) = Fin (1 / 8)"
  using round64_dyadic [of 1 3] by simp

lemma round64_quarter [simp]: "round64 (1 / 4) = Fin (1 / 4)"
  using round64_dyadic [of 1 2] by simp

lemma round64_half [simp]: "round64 (1 / 2) = Fin (1 / 2)"
  using round64_dyadic [of 1 1] by simp



lemma round64_tie: "round64 (2 ^ 53 + 1) = Fin (2 ^ 53)"
  using round64_normal [of 53 "2 ^ 53 + 1" "2 ^ 52"]
  by (simp add: round_even_def Let_def pow2_def)

lemma round64_tie_neg: "round64 (- (2 ^ 53) - 1) = Fin (- (2 ^ 53))"
  using round64_minus [of "2 ^ 53 + 1"] round64_tie by (simp add: np_neg_def)

lemma round64_even: "round64 (2 ^ 53 + 2) = Fin (2 ^ 53 + 2)"
  using round64_exact [of "2 ^ 53 + 2" "2 ^ 52 + 1" 1] by (simp add: pow2_def)

subsection \<open>The payoffs\<close>

lemma np_sub_Fin: "np_sub (Fin s) (Fin k) = round64 (s - k)"
  by (simp add: np_sub_def np_add_def np_neg_def signed_zero_def)

lemma np_add_Fin: "np_add (Fin s) (Fin k) = round64 (s + k)"
  by (simp add: np_add_def signed_zero_def)

lemma np_maximum_Fin_zero: "np_maximum (Fin a) (Fin 0) = Fin (max a 0)"
  using lib_max_zero_pos by (simp add: np_maximum_def fl_le_def signed_zero_def max_def)

lemma fl_nonneg_maximum_zero:
  assumes "a \<noteq> NaN"
  shows "fl_nonneg (np_maximum a (Fin 0))"
  using assms by (cases a) (auto simp add: np_maximum_def fl_nonneg_def fl_le_def signed_zero_def)

lemma np_sub_finite:
  assumes "is_finite a" and "is_finite b"
  shows "np_sub a b \<noteq> NaN"
  using assms
  by (cases a; cases b) (auto simp add: np_sub_def np_add_def np_neg_def is_finite_def signed_zero_def)

lemma payoff_identity_exact:
  assumes s: "representable s" and k: "representable k" and d: "representable (s - k)"
  shows "np_add (callPayoff (Fin s) (Fin k)) (Fin k) = np_add (putPayoff (Fin s) (Fin k)) (Fin s)"
proof -
  have call: "callPayoff (Fin s) (Fin k) = Fin (max (s - k) 0)"
    using d by (simp add: callPayoff_def np_sub_Fin representable_def np_maximum_Fin_zero)
  have "round64 (k - s) = Fin (k - s)"
  proof (cases "s = k")
    case True
    then show ?thesis
      by simp
  next
    case False
    then have "round64 (- (s - k)) = np_neg (round64 (s - k))"
      by (intro round64_minus) simp
    then show ?thesis
      using d False by (simp add: representable_def np_neg_def)
  qed
  then have put: "putPayoff (Fin s) (Fin k) = Fin (max (k - s) 0)"
    by (simp add: putPayoff_def np_sub_Fin np_maximum_Fin_zero)
  show ?thesis
  proof (cases "k \<le> s")
    case True
    then show ?thesis
      using s k unfolding call put np_add_Fin by (simp add: max_def representable_def)
  next
    case False
    then show ?thesis
      using s k unfolding call put np_add_Fin by (simp add: max_def representable_def)
  qed
qed

lemma representable_int: "\<bar>m\<bar> < 2 ^ 53 \<Longrightarrow> representable (real_of_int m)"
  unfolding representable_def by (rule round64_int)

lemma representable_numeral [simp]: "numeral k < (2 ^ 53 :: int) \<Longrightarrow> representable (numeral k)"
  using representable_int [of "numeral k"] by simp

lemma representable_one [simp]: "representable 1"
  using representable_int [of 1] by simp

lemma representable_zero [simp]: "representable 0"
  by (simp add: representable_def)

lemma is_finite_Fin [simp]: "is_finite (Fin x)"
  by (simp add: is_finite_def)

lemma is_finite_NegZero [simp]: "is_finite NegZero"
  by (simp add: is_finite_def)

lemma round64_minus_one [simp]: "round64 (- 1) = Fin (- 1)"
  using round64_int [of "- 1"] by simp

subsection \<open>A volatility that is absorbed\<close>


lemma np_div_one_one [simp]: "np_div (Fin 1) (Fin 1) = Fin 1"
  by (simp add: np_div_def)


subsection \<open>Sums and differences of finite numbers\<close>

lemma is_finite_special [simp]: "\<not> is_finite PInf" "\<not> is_finite NInf" "\<not> is_finite NaN"
  by (simp_all add: is_finite_def)


lemma is_finite_neg [simp]: "is_finite (np_neg a) \<longleftrightarrow> is_finite a"
  by (cases a) (simp_all add: np_neg_def is_finite_def)

lemma is_zero_neg [simp]: "is_zero (np_neg a) \<longleftrightarrow> is_zero a"
  by (cases a) (simp_all add: np_neg_def)

lemma val_neg [simp]: "val (np_neg a) = - val a"
  by (cases a) (simp_all add: np_neg_def)

lemma fl_le_signed_zero [simp]:
  "fl_le (Fin 0) (signed_zero s)" "fl_le (signed_zero s) (Fin 0)"
  by (simp_all add: fl_le_def signed_zero_def)









lemma sqrt_16 [simp]: "sqrt 16 = 4"
  using real_sqrt_abs [of 4] by simp

section \<open>C1: the closed-form price\<close>

text \<open>
  Claim C1. For every input with \<open>S > 0\<close>, \<open>K > 0\<close>, \<open>\<sigma> > 0\<close>, \<open>T > 0\<close>, the closed-form call
  pricer returns exactly the BSM value: with \<open>d1 = (ln(S/K) + (r - \<delta> + 0.5\<sigma>\<^sup>2)\<cdot>T)/(\<sigma>\<cdot>\<surd>T)\<close> and
  \<open>d2 = d1 - \<sigma>\<cdot>\<surd>T\<close>, it returns \<open>S\<cdot>e^(-\<delta>T)\<cdot>\<Phi>(d1) - K\<cdot>e^(-rT)\<cdot>\<Phi>(d2)\<close>.

  At \<open>S = 41\<close>, \<open>K = 40\<close>, \<open>r = 0.08\<close>, \<open>\<delta> = 0\<close>, \<open>\<sigma> = 2^700\<close> and \<open>T = 2^1000\<close>, all positive floats,
  the BSM value is a real number, and the function returns \<open>NaN\<close>: \<open>0.5 * vol * vol\<close>
  overflows to \<open>inf\<close>, so does \<open>vol * np.sqrt(expiry)\<close>, and \<open>d1\<close> is \<open>inf / inf\<close>.
\<close>

theorem blackScholesCall_overflow_counterexample:
  "blackScholesCall (Fin 41) (Fin 40) (Fin (pow2 700)) (py_float (8 / 100)) (Fin (pow2 1000)) (Fin 0)
     = Inr NaN"
proof -
  have "np_div (np_add (np_log (np_div (Fin 41) (Fin 40)))
          (np_mul (np_add (np_sub (py_float (8 / 100)) (Fin 0))
             (np_mul (np_mul (Fin (1 / 2)) (Fin (pow2 700))) (Fin (pow2 700)))) (Fin (pow2 (2 * 500)))))
        (np_mul (Fin (pow2 700)) (np_sqrt (Fin (pow2 (2 * 500))))) = NaN"
    by (rule bs_d1_overflow) simp_all
  then show ?thesis
    by (intro blackScholesCall_NaN) simp_all
qed

text \<open>
  Claim C1, amended. For every input with \<open>S > 0\<close>, \<open>K > 0\<close>, \<open>\<sigma> > 0\<close>, \<open>T > 0\<close> (and for every
  input whose \<open>K\<close> is not zero), the closed-form call pricer raises no error and returns the
  float64 evaluation of the BSM expression: with
  \<open>d1 = (np.log(S / K) + (r - \<delta> + 0.5 * \<sigma> * \<sigma>) * T) / (\<sigma> * np.sqrt(T))\<close> and
  \<open>d2 = d1 - \<sigma> * np.sqrt(T)\<close> it returns
  \<open>S * np.exp(-\<delta> * T) * norm.cdf(d1) - K * np.exp(-r * T) * norm.cdf(d2)\<close>, every operation
  rounded to float64, in this order, \<open>np.log\<close>, \<open>np.exp\<close> and \<open>norm.cdf\<close> as the libraries
  compute them. The result is \<open>NaN\<close> when \<open>d1\<close> is (as when both its numerator and its
  denominator overflow).
\<close>

theorem blackScholesCall_formula:
  "(\<not> is_zero K \<longrightarrow>
      blackScholesCall S K \<sigma> r T \<delta> =
        Inr (let d1 = np_div (np_add (np_log (np_div S K))
                                (np_mul (np_add (np_sub r \<delta>) (np_mul (np_mul (Fin (1 / 2)) \<sigma>) \<sigma>)) T))
                             (np_mul \<sigma> (np_sqrt T));
                 d2 = np_sub d1 (np_mul \<sigma> (np_sqrt T))
             in np_sub (np_mul (np_mul S (np_exp (np_mul (np_neg \<delta>) T))) (norm_cdf d1))
                       (np_mul (np_mul K (np_exp (np_mul (np_neg r) T))) (norm_cdf d2))))
   \<and> (\<not> is_zero K
        \<and> np_div (np_add (np_log (np_div S K))
                    (np_mul (np_add (np_sub r \<delta>) (np_mul (np_mul (Fin (1 / 2)) \<sigma>) \<sigma>)) T))
                 (np_mul \<sigma> (np_sqrt T)) = NaN \<longrightarrow>
      blackScholesCall S K \<sigma> r T \<delta> = Inr NaN)
   \<and> (\<forall>s k. S = Fin s \<and> K = Fin k \<and> 0 < s \<and> 0 < k \<longrightarrow>
        (\<exists>callPrc. blackScholesCall S K \<sigma> r T \<delta> = Inr callPrc))"
proof (intro conjI allI impI)
  assume "\<not> is_zero K"
  then show "blackScholesCall S K \<sigma> r T \<delta> =
      Inr (let d1 = np_div (np_add (np_log (np_div S K))
                              (np_mul (np_add (np_sub r \<delta>) (np_mul (np_mul (Fin (1 / 2)) \<sigma>) \<sigma>)) T))
                           (np_mul \<sigma> (np_sqrt T));
               d2 = np_sub d1 (np_mul \<sigma> (np_sqrt T))
           in np_sub (np_mul (np_mul S (np_exp (np_mul (np_neg \<delta>) T))) (norm_cdf d1))
                     (np_mul (np_mul K (np_exp (np_mul (np_neg r) T))) (norm_cdf d2)))"
    by (rule blackScholesCall_value)
next
  assume "\<not> is_zero K
      \<and> np_div (np_add (np_log (np_div S K))
                  (np_mul (np_add (np_sub r \<delta>) (np_mul (np_mul (Fin (1 / 2)) \<sigma>) \<sigma>)) T))
               (np_mul \<sigma> (np_sqrt T)) = NaN"
  then show "blackScholesCall S K \<sigma> r T \<delta> = Inr NaN"
    by (intro blackScholesCall_NaN) simp_all
next
  fix s k
  assume "S = Fin s \<and> K = Fin k \<and> 0 < s \<and> 0 < k"
  then have "\<not> is_zero K"
    by auto
  then show "\<exists>callPrc. blackScholesCall S K \<sigma> r T \<delta> = Inr callPrc"
    using blackScholesCall_value [of K S \<sigma> r T \<delta>] by blast
qed

text \<open>
  At \<open>S = 41\<close>, \<open>K = 40\<close>, \<open>\<sigma> = 0.25\<close>, \<open>r = 0.125\<close>, \<open>T = 1\<close>, \<open>\<delta> = 0\<close>, where the arithmetic
  of \<open>d1\<close> is exact but for the quotient \<open>41 / 40\<close>; and at \<open>\<sigma> = 2^800\<close>, \<open>T = 2^900\<close>, where
  \<open>d1\<close> is \<open>NaN\<close>.
\<close>

theorem blackScholesCall_formula_witness:
  "blackScholesCall (Fin 41) (Fin 40) (Fin (1 / 4)) (Fin (1 / 8)) (Fin 1) (Fin 0) =
     Inr (let d1 = np_div (np_add (np_log (round64 (41 / 40))) (Fin (5 / 32))) (Fin (1 / 4));
              d2 = np_sub d1 (Fin (1 / 4))
          in np_sub (np_mul (Fin 41) (norm_cdf d1))
                    (np_mul (np_mul (Fin 40) (np_exp (Fin (- (1 / 8))))) (norm_cdf d2)))
   \<and> blackScholesCall (Fin 41) (Fin 40) (Fin (pow2 800)) (py_float (8 / 100)) (Fin (pow2 900)) (Fin 0)
       = Inr NaN"
proof -
  have r32: "round64 (1 / 32) = Fin (1 / 32)" and r532: "round64 (5 / 32) = Fin (5 / 32)"
    and r8: "round64 (- (1 / 8)) = Fin (- (1 / 8))"
    using round64_dyadic [of 1 5] round64_dyadic [of 5 5] round64_dyadic [of "- 1" 3] by simp_all
  have quot: "np_div (Fin 41) (Fin 40) = round64 (41 / 40)"
    by (simp add: np_div_def)
  have rate: "np_sub (Fin (1 / 8)) (Fin 0) = Fin (1 / 8)"
    by (simp add: np_sub_Fin)
  have half: "np_mul (Fin (1 / 2)) (Fin (1 / 4)) = Fin (1 / 8)"
    by (simp add: np_mul_def)
  have square: "np_mul (Fin (1 / 8)) (Fin (1 / 4)) = Fin (1 / 32)"
    using r32 by (simp add: np_mul_def)
  have drift: "np_add (Fin (1 / 8)) (Fin (1 / 32)) = Fin (5 / 32)"
    using r532 by (simp add: np_add_Fin)
  have time: "np_mul (Fin (5 / 32)) (Fin 1) = Fin (5 / 32)"
    using r532 by (simp add: np_mul_def)
  have root: "np_sqrt (Fin 1) = Fin 1"
    by (simp add: np_sqrt_def)
  have den: "np_mul (Fin (1 / 4)) (Fin 1) = Fin (1 / 4)"
    by (simp add: np_mul_def)
  have div: "np_exp (np_mul (np_neg (Fin 0)) (Fin 1)) = Fin 1"
    by (simp add: np_neg_def np_mul_def signed_zero_def np_exp_zero)
  have spot: "np_mul (Fin 41) (Fin 1) = Fin 41"
    by (simp add: np_mul_def)
  have disc: "np_mul (np_neg (Fin (1 / 8))) (Fin 1) = Fin (- (1 / 8))"
    using r8 by (simp add: np_neg_def np_mul_def)
  have first: "blackScholesCall (Fin 41) (Fin 40) (Fin (1 / 4)) (Fin (1 / 8)) (Fin 1) (Fin 0) =
     Inr (let d1 = np_div (np_add (np_log (round64 (41 / 40))) (Fin (5 / 32))) (Fin (1 / 4));
              d2 = np_sub d1 (Fin (1 / 4))
          in np_sub (np_mul (Fin 41) (norm_cdf d1))
                    (np_mul (np_mul (Fin 40) (np_exp (Fin (- (1 / 8))))) (norm_cdf d2)))"
    using blackScholesCall_formula [of "Fin 40" "Fin 41" "Fin (1 / 4)" "Fin (1 / 8)" "Fin 1" "Fin 0"]
    unfolding quot rate half square drift time root den div spot disc by simp
  have "np_div (np_add (np_log (np_div (Fin 41) (Fin 40)))
          (np_mul (np_add (np_sub (py_float (8 / 100)) (Fin 0))
             (np_mul (np_mul (Fin (1 / 2)) (Fin (pow2 800))) (Fin (pow2 800)))) (Fin (pow2 (2 * 450)))))
        (np_mul (Fin (pow2 800)) (np_sqrt (Fin (pow2 (2 * 450))))) = NaN"
    by (rule bs_d1_overflow) simp_all
  then have nan: "np_div (np_add (np_log (np_div (Fin 41) (Fin 40)))
          (np_mul (np_add (np_sub (py_float (8 / 100)) (Fin 0))
             (np_mul (np_mul (Fin (1 / 2)) (Fin (pow2 800))) (Fin (pow2 800)))) (Fin (pow2 900))))
        (np_mul (Fin (pow2 800)) (np_sqrt (Fin (pow2 900)))) = NaN"
    by simp
  have zero: "\<not> is_zero (Fin 40)"
    by simp
  have second: "blackScholesCall (Fin 41) (Fin 40) (Fin (pow2 800)) (py_float (8 / 100)) (Fin (pow2 900)) (Fin 0)
      = Inr NaN"
    using blackScholesCall_formula [of "Fin 40" "Fin 41" "Fin (pow2 800)" "py_float (8 / 100)"
        "Fin (pow2 900)" "Fin 0"] nan zero
    by blast
  show ?thesis
    using first second by (rule conjI)
qed

section \<open>C2: the lattice price\<close>




section \<open>C3: the errors of the lattice pricer\<close>

text \<open>
  Claim C3. The binomial lattice pricer fails with DomainError, detected before any
  computation of the price, whenever \<open>n\<close> is not a positive integer, whenever \<open>u == d\<close>, or
  whenever \<open>p*\<close> lies outside the open interval \<open>(0, 1)\<close>; in particular it raises
  DomainError for \<open>n = 0\<close> and \<open>n = -5\<close> with otherwise-valid parameters.

  The function validates nothing. With the numbers of the notebook and \<open>n = -5\<close> it raises
  no error: \<open>range(-4)\<close> is empty, the loop body never runs, and the function returns
  \<open>0.0 * exp(-0.08)\<close>, which is \<open>0.0\<close>.
\<close>

theorem binomialPricer_negative_steps_counterexample:
  "binomialPricer (py_float 41) (py_float 40) (py_float (8 / 100)) (py_float (3 / 10))
     (py_float 0) (py_float 1) (PyInt (- 5)) callPayoff True = Inr ([], Fin 0)"
proof -
  obtain c where c: "py_float (8 / 100) = Fin c" and "pow2 (- 4) \<le> c"
    using py_float_between [of "- 4" "- 3" "8 / 100"] by (auto simp add: pow2_def power_int_minus)
  then have "0 \<le> c"
    using pow2_nonneg [of "- 4"] by linarith
  then have "fl_le (np_mul (np_neg (Fin c)) (Fin 1)) (Fin 0)"
    by (intro np_mul_neg_pos) simp_all
  then have "np_mul (Fin 0) (np_exp (np_mul (np_neg (Fin c)) (Fin 1))) = Fin 0"
    by (rule np_mul_zero_exp)
  then show ?thesis
    unfolding c
    using binomialPricer_negative [of "- 5" "py_float 41" "py_float 40" "Fin c" "py_float (3 / 10)"
        "Fin 0" "Fin 1" callPayoff True]
    by simp
qed

text \<open>
  Claim C3, amended. The pricer raises no DomainError and validates nothing. What it
  does depends on \<open>n\<close> alone:
  \<^item> \<open>n = 0\<close> (the integer, \<open>0.0\<close> or \<open>-0.0\<close>): \<open>ZeroDivisionError\<close>, from \<open>h = T / n\<close>,
    before anything else is computed;
  \<^item> a float \<open>n\<close> other than zero: \<open>TypeError\<close>, from \<open>range(nodes)\<close>, after \<open>u\<close>, \<open>d\<close> and
    \<open>p*\<close> have been computed and before the loop;
  \<^item> an integer with \<open>|n| \<ge> 2^1024\<close>: \<open>OverflowError\<close>, from \<open>T / n\<close>;
  \<^item> a negative integer \<open>n \<ge> -2^1023\<close> (so \<open>n = -5\<close>): no error, the loop runs zero times
    and the price is \<open>0.0 * exp(-r * T)\<close>;
  \<^item> an integer \<open>1 \<le> n < 2^63\<close>: no error, whatever \<open>u\<close>, \<open>d\<close> and \<open>p*\<close> are; when
    \<open>u == d\<close>, or when \<open>p*\<close> is \<open>NaN\<close> or outside \<open>[0, 1]\<close>, the price returned is \<open>NaN\<close>.
\<close>

theorem binomialPricer_errors:
  "binomialPricer S K r v q T (PyInt 0) payoff verbose = Inl ZeroDivisionError
   \<and> (is_zero z \<longrightarrow> binomialPricer S K r v q T (PyFloat z) payoff verbose = Inl ZeroDivisionError)
   \<and> (\<not> is_zero x \<longrightarrow> binomialPricer S K r v q T (PyFloat x) payoff verbose = Inl TypeError)
   \<and> (2 ^ 1024 \<le> \<bar>big\<bar> \<longrightarrow>
        binomialPricer S K r v q T (PyInt big) payoff verbose = Inl OverflowError)
   \<and> (neg < 0 \<and> - (2 ^ 1023) \<le> neg \<longrightarrow>
        binomialPricer S K r v q T (PyInt neg) payoff verbose =
          Inr ([], np_mul (Fin 0) (np_exp (np_mul (np_neg r) T))))
   \<and> (1 \<le> m \<and> m < 2 ^ 63 \<longrightarrow>
        (\<exists>lines price. binomialPricer S K r v q T (PyInt m) payoff verbose = Inr (lines, price)))
   \<and> (1 \<le> m \<and> m < 2 ^ 63 \<and> py_truediv_num T (PyInt m) = Inr h
        \<and> (lattice_u r q v h = lattice_d r q v h
            \<or> lattice_pstar r q v h = NaN
            \<or> \<not> (fl_le (Fin 0) (lattice_pstar r q v h) \<and> fl_le (lattice_pstar r q v h) (Fin 1))) \<longrightarrow>
        (\<exists>lines. binomialPricer S K r v q T (PyInt m) payoff verbose = Inr (lines, NaN)))"
proof (intro conjI impI)
  show "binomialPricer S K r v q T (PyInt 0) payoff verbose = Inl ZeroDivisionError"
    by (simp add: binomialPricer_PyInt [OF py_float_of_int_zero])
next
  assume "is_zero z"
  then show "binomialPricer S K r v q T (PyFloat z) payoff verbose = Inl ZeroDivisionError"
    by (simp add: binomialPricer_PyFloat)
next
  assume "\<not> is_zero x"
  then show "binomialPricer S K r v q T (PyFloat x) payoff verbose = Inl TypeError"
    by (simp add: binomialPricer_PyFloat)
next
  assume "2 ^ 1024 \<le> \<bar>big\<bar>"
  then have "py_float_of_int big = Inl OverflowError"
    by (rule py_float_of_int_overflow)
  then show "binomialPricer S K r v q T (PyInt big) payoff verbose = Inl OverflowError"
    by (rule binomialPricer_PyInt_error)
next
  assume "neg < 0 \<and> - (2 ^ 1023) \<le> neg"
  then show "binomialPricer S K r v q T (PyInt neg) payoff verbose =
      Inr ([], np_mul (Fin 0) (np_exp (np_mul (np_neg r) T)))"
    by (intro binomialPricer_negative) simp_all
next
  assume "1 \<le> m \<and> m < 2 ^ 63"
  then show "\<exists>lines price. binomialPricer S K r v q T (PyInt m) payoff verbose = Inr (lines, price)"
    using binomialPricer_returns [of m T S K r q v payoff verbose] by auto
next
  assume a: "1 \<le> m \<and> m < 2 ^ 63 \<and> py_truediv_num T (PyInt m) = Inr h
      \<and> (lattice_u r q v h = lattice_d r q v h
          \<or> lattice_pstar r q v h = NaN
          \<or> \<not> (fl_le (Fin 0) (lattice_pstar r q v h) \<and> fl_le (lattice_pstar r q v h) (Fin 1)))"
  then have "\<not> (fl_le (Fin 0) (lattice_pstar r q v h) \<and> fl_le (lattice_pstar r q v h) (Fin 1))"
    using lattice_pstar_degenerate [of r q v h] by (auto simp add: fl_le_def)
  then show "\<exists>lines. binomialPricer S K r v q T (PyInt m) payoff verbose = Inr (lines, NaN)"
    using a binomialPricer_invalid_pstar [where m = m and T = T and h = h and r = r and q = q
        and v = v and S = S and K = K and payoff = payoff and verbose = verbose]
    by blast
qed

text \<open>
  The seven cases at \<open>S = 41\<close>, \<open>K = 40\<close>, \<open>r = 1\<close>, \<open>\<delta> = 0\<close>, \<open>T = 1\<close> and \<open>\<sigma> = 0\<close>, where \<open>u == d\<close>.
\<close>

theorem binomialPricer_errors_witness:
  "binomialPricer (Fin 41) (Fin 40) (Fin 1) (Fin 0) (Fin 0) (Fin 1) (PyInt 0) callPayoff True
     = Inl ZeroDivisionError
   \<and> binomialPricer (Fin 41) (Fin 40) (Fin 1) (Fin 0) (Fin 0) (Fin 1) (PyFloat NegZero) callPayoff True
     = Inl ZeroDivisionError
   \<and> binomialPricer (Fin 41) (Fin 40) (Fin 1) (Fin 0) (Fin 0) (Fin 1) (PyFloat (Fin (5 / 2))) callPayoff True
     = Inl TypeError
   \<and> binomialPricer (Fin 41) (Fin 40) (Fin 1) (Fin 0) (Fin 0) (Fin 1) (PyInt (2 ^ 1024)) callPayoff True
     = Inl OverflowError
   \<and> binomialPricer (Fin 41) (Fin 40) (Fin 1) (Fin 0) (Fin 0) (Fin 1) (PyInt (- 5)) callPayoff True
     = Inr ([], np_mul (Fin 0) (np_exp (np_mul (np_neg (Fin 1)) (Fin 1))))
   \<and> (\<exists>lines. binomialPricer (Fin 41) (Fin 40) (Fin 1) (Fin 0) (Fin 0) (Fin 1) (PyInt 1) callPayoff True
     = Inr (lines, NaN))"
proof -
  have h: "py_truediv_num (Fin 1) (PyInt 1) = Inr (Fin 1)"
    by (simp add: py_truediv_num_def py_truediv_def py_float_of_int_def np_div_def)
  have ud: "lattice_u (Fin 1) (Fin 0) (Fin 0) (Fin 1) = lattice_d (Fin 1) (Fin 0) (Fin 0) (Fin 1)"
    by (simp add: lattice_u_def lattice_d_def np_sub_def np_add_def np_neg_def np_mul_def
        np_sqrt_def signed_zero_def)
  show ?thesis
    using binomialPricer_errors [where S = "Fin 41" and K = "Fin 40" and r = "Fin 1" and v = "Fin 0"
        and q = "Fin 0" and T = "Fin 1" and payoff = callPayoff and verbose = True
        and z = NegZero and x = "Fin (5 / 2)" and big = "2 ^ 1024" and neg = "- 5" and m = 1
        and h = "Fin 1"] h ud
    by simp
qed

section \<open>C4: the errors of the closed-form pricer\<close>

text \<open>
  Claim C4. The closed-form pricer fails with DomainError whenever \<open>\<sigma> \<le> 0\<close>, \<open>T \<le> 0\<close>,
  \<open>S \<le> 0\<close>, or \<open>K \<le> 0\<close>, and succeeds (raises no error) for every input with \<open>S\<close>, \<open>K\<close>,
  \<open>\<sigma>\<close>, \<open>T\<close> all strictly positive; in particular it raises DomainError for \<open>\<sigma> = 0\<close> and
  for \<open>T = 0\<close> with otherwise-valid parameters.

  The function validates nothing. With the numbers of the notebook and \<open>\<sigma> = 0\<close> it
  raises no error: \<open>d1\<close> is a division by \<open>0.0\<close> in numpy, which returns an infinity or
  \<open>NaN\<close>, and the function returns a float.
\<close>

theorem blackScholesCall_zero_vol_counterexample:
  "\<not> isl (blackScholesCall (Fin 41) (Fin 40) (Fin 0) (py_float (8 / 100)) (Fin 1) (Fin 0))"
  by (simp add: blackScholesCall_value)

text \<open>
  Claim C4, amended. The closed-form pricer raises no DomainError and validates nothing.
  It fails exactly when \<open>K\<close> is zero (\<open>0.0\<close> or \<open>-0.0\<close>), with Python's \<open>ZeroDivisionError\<close>
  from \<open>spot / strike\<close>. For every other input, \<open>\<sigma> \<le> 0\<close>, \<open>T \<le> 0\<close>, \<open>S \<le> 0\<close> and \<open>K < 0\<close>
  included, it raises no error and returns a float; so it succeeds for every input with
  \<open>S\<close>, \<open>K\<close>, \<open>\<sigma>\<close>, \<open>T\<close> all strictly positive.
\<close>

theorem blackScholesCall_errors:
  "(blackScholesCall spot strike vol rate expiry div' = Inl ZeroDivisionError \<longleftrightarrow> is_zero strike)
   \<and> ((\<exists>callPrc. blackScholesCall spot strike vol rate expiry div' = Inr callPrc)
        \<longleftrightarrow> \<not> is_zero strike)
   \<and> (\<forall>s k sigma t. 0 < s \<and> 0 < k \<and> 0 < sigma \<and> 0 < t \<longrightarrow>
        (\<exists>callPrc. blackScholesCall (Fin s) (Fin k) (Fin sigma) rate (Fin t) div' = Inr callPrc))"
proof (intro conjI allI impI)
  show "blackScholesCall spot strike vol rate expiry div' = Inl ZeroDivisionError \<longleftrightarrow> is_zero strike"
    using blackScholesCall_zero_strike [of strike spot vol rate expiry div']
      blackScholesCall_value [of strike spot vol rate expiry div']
    by (cases "is_zero strike") simp_all
next
  show "(\<exists>callPrc. blackScholesCall spot strike vol rate expiry div' = Inr callPrc)
      \<longleftrightarrow> \<not> is_zero strike"
    using blackScholesCall_zero_strike [of strike spot vol rate expiry div']
      blackScholesCall_value [of strike spot vol rate expiry div']
    by (cases "is_zero strike") simp_all
next
  fix s k sigma t :: real
  assume "0 < s \<and> 0 < k \<and> 0 < sigma \<and> 0 < t"
  then have "\<not> is_zero (Fin k)"
    by simp
  then show "\<exists>callPrc. blackScholesCall (Fin s) (Fin k) (Fin sigma) rate (Fin t) div' = Inr callPrc"
    using blackScholesCall_value [of "Fin k" "Fin s" "Fin sigma" rate "Fin t" div'] by blast
qed

text \<open>
  At \<open>K = 0\<close>; at \<open>\<sigma> = 0\<close>; at \<open>T = 0\<close>; and at the numbers of the notebook.
\<close>

theorem blackScholesCall_errors_witness:
  "blackScholesCall (Fin 41) (Fin 0) (py_float (3 / 10)) (py_float (8 / 100)) (Fin 1) (Fin 0)
     = Inl ZeroDivisionError
   \<and> (\<exists>callPrc. blackScholesCall (Fin 41) (Fin 40) (Fin 0) (py_float (8 / 100)) (Fin 1) (Fin 0)
        = Inr callPrc)
   \<and> (\<exists>callPrc. blackScholesCall (Fin 41) (Fin 40) (py_float (3 / 10)) (py_float (8 / 100)) (Fin 0) (Fin 0)
        = Inr callPrc)
   \<and> (\<exists>callPrc. blackScholesCall (Fin 41) (Fin 40) (Fin (1 / 4)) (py_float (8 / 100)) (Fin 1) (Fin 0)
        = Inr callPrc)"
  using blackScholesCall_errors [of "Fin 41" "Fin 0" "py_float (3 / 10)" "py_float (8 / 100)" "Fin 1" "Fin 0"]
    blackScholesCall_errors [of "Fin 41" "Fin 40" "Fin 0" "py_float (8 / 100)" "Fin 1" "Fin 0"]
    blackScholesCall_errors [of "Fin 41" "Fin 40" "py_float (3 / 10)" "py_float (8 / 100)" "Fin 0" "Fin 0"]
    blackScholesCall_errors [of "Fin 41" "Fin 40" "Fin (1 / 4)" "py_float (8 / 100)" "Fin 1" "Fin 0"]
  by simp

section \<open>C6: the payoffs\<close>

text \<open>
  Claim C6. For all \<open>S_T \<ge> 0\<close> and \<open>K \<ge> 0\<close>, the call payoff \<open>max(S_T - K, 0)\<close> and the put
  payoff \<open>max(K - S_T, 0)\<close> are both non-negative, and they satisfy the payoff identity
  \<open>Call(S_T, K) + K == Put(S_T, K) + S_T\<close>.

  At \<open>S_T = 1\<close> and \<open>K = 2^53 + 2\<close>, both floats, the identity fails: \<open>K - S_T = 2^53 + 1\<close> is
  not a float64 and is rounded to \<open>2^53\<close>, so the put payoff is \<open>2^53\<close> and
  \<open>Put + S_T\<close> is \<open>2^53\<close> again, while \<open>Call + K = 0.0 + K = 2^53 + 2\<close>.
\<close>

theorem payoff_identity_counterexample:
  "np_add (callPayoff (Fin 1) (Fin (2 ^ 53 + 2))) (Fin (2 ^ 53 + 2)) = Fin (2 ^ 53 + 2)
   \<and> np_add (putPayoff (Fin 1) (Fin (2 ^ 53 + 2))) (Fin 1) = Fin (2 ^ 53)"
proof -
  have "round64 (1 - (2 ^ 53 + 2)) = Fin (- (2 ^ 53))"
    using round64_tie_neg by simp
  then have "callPayoff (Fin 1) (Fin (2 ^ 53 + 2)) = Fin 0"
    unfolding callPayoff_def np_sub_Fin by (simp add: np_maximum_Fin_zero)
  moreover have "round64 (2 ^ 53 + 2 - 1) = Fin (2 ^ 53)"
    using round64_tie by simp
  then have "putPayoff (Fin 1) (Fin (2 ^ 53 + 2)) = Fin (2 ^ 53)"
    unfolding putPayoff_def np_sub_Fin by (simp add: np_maximum_Fin_zero)
  ultimately show ?thesis
    using round64_even round64_tie by (simp add: np_add_Fin)
qed

text \<open>
  Claim C6, amended. For all finite floats \<open>S_T\<close> and \<open>K\<close> (so for all finite \<open>S_T \<ge> 0\<close> and
  \<open>K \<ge> 0\<close>), the call payoff \<open>np.maximum(S_T - K, 0.0)\<close> and the put payoff
  \<open>np.maximum(K - S_T, 0.0)\<close> are both non-negative, the differences being rounded to
  float64; and they satisfy the payoff identity \<open>Call(S_T, K) + K == Put(S_T, K) + S_T\<close>
  whenever the difference \<open>S_T - K\<close> is itself a float64 (no rounding in the subtraction).
\<close>

theorem payoff_identity:
  "(is_finite S \<and> is_finite K \<longrightarrow> fl_nonneg (callPayoff S K) \<and> fl_nonneg (putPayoff S K))
   \<and> callPayoff (Fin s) (Fin k) = np_maximum (round64 (s - k)) (Fin 0)
   \<and> putPayoff (Fin s) (Fin k) = np_maximum (round64 (k - s)) (Fin 0)
   \<and> (representable s \<and> representable k \<and> representable (s - k) \<longrightarrow>
        np_add (callPayoff (Fin s) (Fin k)) (Fin k) = np_add (putPayoff (Fin s) (Fin k)) (Fin s))"
proof (intro conjI impI)
  assume "is_finite S \<and> is_finite K"
  then show "fl_nonneg (callPayoff S K)" and "fl_nonneg (putPayoff S K)"
    unfolding callPayoff_def putPayoff_def
    by (simp_all add: fl_nonneg_maximum_zero np_sub_finite)
next
  show "callPayoff (Fin s) (Fin k) = np_maximum (round64 (s - k)) (Fin 0)"
    by (simp add: callPayoff_def np_sub_Fin)
next
  show "putPayoff (Fin s) (Fin k) = np_maximum (round64 (k - s)) (Fin 0)"
    by (simp add: putPayoff_def np_sub_Fin)
next
  assume "representable s \<and> representable k \<and> representable (s - k)"
  then show "np_add (callPayoff (Fin s) (Fin k)) (Fin k) = np_add (putPayoff (Fin s) (Fin k)) (Fin s)"
    by (intro payoff_identity_exact) simp_all
qed

text \<open>
  At \<open>S_T = 41\<close> and \<open>K = 40\<close>: the payoffs are \<open>1.0\<close> and \<open>0.0\<close>, and both sides of the
  identity are \<open>41.0\<close>.
\<close>

theorem payoff_identity_witness:
  "fl_nonneg (callPayoff (Fin 41) (Fin 40)) \<and> fl_nonneg (putPayoff (Fin 41) (Fin 40))
   \<and> callPayoff (Fin 41) (Fin 40) = Fin 1 \<and> putPayoff (Fin 41) (Fin 40) = Fin 0
   \<and> np_add (callPayoff (Fin 41) (Fin 40)) (Fin 40) = Fin 41
   \<and> np_add (putPayoff (Fin 41) (Fin 40)) (Fin 41) = Fin 41"
proof -
  have call: "callPayoff (Fin 41) (Fin 40) = Fin 1"
    using payoff_identity [of "Fin 41" "Fin 40" 41 40] by (simp add: np_maximum_Fin_zero)
  have put: "putPayoff (Fin 41) (Fin 40) = Fin 0"
    using payoff_identity [of "Fin 41" "Fin 40" 41 40] by (simp add: np_maximum_Fin_zero)
  show ?thesis
    using payoff_identity [of "Fin 41" "Fin 40" 41 40] unfolding call put
    by (simp add: np_add_Fin)
qed

section \<open>C7: the factors of the lattice\<close>




section \<open>C8: the diagnostic mode\<close>



section \<open>C9: the sign of the prices\<close>

text \<open>
  Claim C9. For every valid input (\<open>S, K, \<sigma>, T > 0\<close>, and for the lattice pricer additionally
  integer \<open>n \<ge> 1\<close> with \<open>p*\<close> in \<open>(0, 1)\<close> and a non-negative payoff function), the price returned
  by the closed-form pricer and the price returned by the binomial lattice pricer are both
  \<open>\<ge> 0\<close>.

  At \<open>S = 41\<close>, \<open>K = 40\<close>, \<open>r = 0.08\<close>, \<open>\<delta> = 0\<close>, \<open>\<sigma> = 2^1000\<close> and \<open>T = 2^200\<close>, all positive floats,
  the closed-form pricer returns \<open>NaN\<close>, which is not \<open>\<ge> 0\<close>.
\<close>

theorem blackScholesCall_nan_counterexample:
  "blackScholesCall (Fin 41) (Fin 40) (Fin (pow2 1000)) (py_float (8 / 100)) (Fin (pow2 200)) (Fin 0)
     = Inr NaN
   \<and> \<not> fl_le (Fin 0) NaN"
proof -
  have "np_div (np_add (np_log (np_div (Fin 41) (Fin 40)))
          (np_mul (np_add (np_sub (py_float (8 / 100)) (Fin 0))
             (np_mul (np_mul (Fin (1 / 2)) (Fin (pow2 1000))) (Fin (pow2 1000)))) (Fin (pow2 (2 * 100)))))
        (np_mul (Fin (pow2 1000)) (np_sqrt (Fin (pow2 (2 * 100))))) = NaN"
    by (rule bs_d1_overflow) simp_all
  then have "blackScholesCall (Fin 41) (Fin 40) (Fin (pow2 1000)) (py_float (8 / 100))
      (Fin (pow2 200)) (Fin 0) = Inr NaN"
    by (intro blackScholesCall_NaN) simp_all
  then show ?thesis
    by (simp add: fl_le_def)
qed

text \<open>
  Claim C9, amended. For every input whose \<open>K\<close> is not zero the closed-form pricer returns
  a float, which can be \<open>NaN\<close>. For every input on which the binomial lattice pricer
  returns, with a payoff function that never returns a negative number, the price
  returned is not negative: it is \<open>\<ge> 0\<close> or \<open>NaN\<close>; and the pricer returns for every integer
  \<open>1 \<le> n < 2^63\<close>. The call and the put payoff are such payoff functions.
\<close>

theorem prices_nonneg:
  "(\<not> is_zero K \<longrightarrow> (\<exists>callPrc. blackScholesCall S K \<sigma> r T \<delta> = Inr callPrc))
   \<and> ((\<forall>s k. not_negative (payoff s k))
        \<and> binomialPricer S K r \<sigma> \<delta> T n payoff verbose = Inr (printed, price) \<longrightarrow>
          not_negative price)
   \<and> ((\<forall>s k. not_negative (payoff s k)) \<and> 1 \<le> m \<and> m < 2 ^ 63 \<longrightarrow>
        (\<exists>lines price. binomialPricer S K r \<sigma> \<delta> T (PyInt m) payoff verbose = Inr (lines, price)
           \<and> not_negative price))
   \<and> (\<forall>s k. not_negative (callPayoff s k) \<and> not_negative (putPayoff s k))"
proof (intro conjI allI impI)
  assume "\<not> is_zero K"
  then show "\<exists>callPrc. blackScholesCall S K \<sigma> r T \<delta> = Inr callPrc"
    using blackScholesCall_value [of K S \<sigma> r T \<delta>] by blast
next
  assume "(\<forall>s k. not_negative (payoff s k))
      \<and> binomialPricer S K r \<sigma> \<delta> T n payoff verbose = Inr (printed, price)"
  then show "not_negative price"
    using binomialPricer_not_negative [of S K r \<sigma> \<delta> T n payoff verbose printed price] by blast
next
  assume a: "(\<forall>s k. not_negative (payoff s k)) \<and> 1 \<le> m \<and> m < 2 ^ 63"
  then obtain lines price
    where run: "binomialPricer S K r \<sigma> \<delta> T (PyInt m) payoff verbose = Inr (lines, price)"
    using binomialPricer_returns [where m = m and T = T and S = S and K = K and r = r
        and v = \<sigma> and q = \<delta> and payoff = payoff and verbose = verbose]
    by auto
  then have "not_negative price"
    using a binomialPricer_not_negative [of S K r \<sigma> \<delta> T "PyInt m" payoff verbose lines price]
    by blast
  then show "\<exists>lines price. binomialPricer S K r \<sigma> \<delta> T (PyInt m) payoff verbose = Inr (lines, price)
      \<and> not_negative price"
    using run by blast
next
  fix s k
  show "not_negative (callPayoff s k)"
    by (rule not_negative_callPayoff)
next
  fix s k
  show "not_negative (putPayoff s k)"
    by (rule not_negative_putPayoff)
qed

text \<open>
  At the numbers of the notebook, with three steps and the call payoff.
\<close>

theorem prices_nonneg_witness:
  "(\<exists>callPrc. blackScholesCall (Fin 41) (Fin 40) (py_float (3 / 10)) (py_float (8 / 100)) (Fin 1) (Fin 0)
      = Inr callPrc)
   \<and> (\<exists>lines price.
        binomialPricer (Fin 41) (Fin 40) (py_float (8 / 100)) (py_float (3 / 10)) (Fin 0) (Fin 1)
          (PyInt 3) callPayoff True = Inr (lines, price)
        \<and> not_negative price)"
proof -
  have payoff: "\<forall>s k. not_negative (callPayoff s k)"
    using prices_nonneg [of "Fin 40" "Fin 41" "py_float (3 / 10)" "py_float (8 / 100)" "Fin 1" "Fin 0"
        callPayoff "PyInt 3" True "[]" NaN 3]
    by blast
  have zero: "\<not> is_zero (Fin 40)" and m: "(1::int) \<le> 3" "(3::int) < 2 ^ 63"
    by simp_all
  show ?thesis
    using prices_nonneg [of "Fin 40" "Fin 41" "py_float (3 / 10)" "py_float (8 / 100)" "Fin 1" "Fin 0"
        callPayoff "PyInt 3" True "[]" NaN 3] payoff zero m
    by blast
qed

section \<open>C10: the risk-neutral probability\<close>




end
